theory Spec2Isabelle
  imports Complex_Main "HOL-Library.Sublist" "HOL-Library.Multiset"
    "HOL-Library.Char_ord" "HOL-Library.List_Lexorder"
begin

section \<open>Python numbers\<close>

text \<open>
  \<^verbatim>\<open>app.py\<close> computes with Python \<^verbatim>\<open>float\<close>s, which are IEEE 754 binary64 values, and
  with Python \<^verbatim>\<open>int\<close>s, which are unbounded. A float is modelled by the rational number
  it denotes, or by one of the three special values. Every arithmetic operation computes
  the exact rational result and rounds it to the nearest binary64 value (ties to even),
  as the hardware does. The sign of a zero is not modelled: nothing in \<^verbatim>\<open>app.py\<close>
  can observe it (the only division is guarded by \<^verbatim>\<open>baseline > 0\<close>).
\<close>

datatype pyfloat = Fin rat | PInf | NInf | NaN

datatype pynum = PyInt int | PyFloat pyfloat

datatype py_error = OverflowError | ZeroDivisionError | OperationalError

definition ebind :: "py_error + 'a \<Rightarrow> ('a \<Rightarrow> py_error + 'b) \<Rightarrow> py_error + 'b" where
  "ebind m f = (case m of Inl err \<Rightarrow> Inl err | Inr v \<Rightarrow> f v)"

subsection \<open>Rounding to binary64\<close>

text \<open>\<open>bit_len n\<close> is the number of binary digits of \<open>n\<close>.\<close>

function bit_len :: "nat \<Rightarrow> nat" where
  "bit_len n = (if n = 0 then 0 else Suc (bit_len (n div 2)))"
  by pat_completeness auto
termination
  by (relation "measure (\<lambda>n. n)") auto

declare bit_len.simps [simp del]

text \<open>For \<open>0 < x\<close>, \<open>ilog2 x\<close> is the exponent \<open>e\<close> with \<open>2^e \<le> x < 2^(e+1)\<close>.\<close>

definition ilog2 :: "rat \<Rightarrow> int" where
  "ilog2 x = (if 1 \<le> x then int (bit_len (nat \<lfloor>x\<rfloor>)) - 1
              else - int (bit_len (nat (\<lceil>1 / x\<rceil> - 1))))"

definition round_half_even :: "rat \<Rightarrow> int" where
  "round_half_even x =
     (let f = \<lfloor>x\<rfloor>; d = x - of_int f
      in if d < 1 / 2 then f
         else if 1 / 2 < d then f + 1
         else if even f then f else f + 1)"

text \<open>
  The spacing of binary64 values around \<open>x\<close> is \<open>2^q\<close> with \<open>q = e - 52\<close>, where \<open>e\<close> is
  the exponent of \<open>x\<close>, but never below \<open>-1022\<close> (subnormal numbers). \<open>fl_val x\<close> is the
  nearest multiple of that spacing; \<open>fl x\<close> is the float it gives, an infinity when the
  rounded value reaches \<open>2^1024\<close>.
\<close>

definition fl_val :: "rat \<Rightarrow> rat" where
  "fl_val x =
     (if x = 0 then 0
      else let q = max (ilog2 \<bar>x\<bar>) (- 1022) - 52
           in of_int (round_half_even (x / 2 powi q)) * 2 powi q)"

definition fl :: "rat \<Rightarrow> pyfloat" where
  "fl x = (let r = fl_val x
           in if 2 ^ 1024 \<le> r then PInf else if r \<le> - (2 ^ 1024) then NInf else Fin r)"

subsection \<open>Float arithmetic\<close>

fun fneg :: "pyfloat \<Rightarrow> pyfloat" where
  "fneg (Fin a) = Fin (- a)"
| "fneg PInf = NInf"
| "fneg NInf = PInf"
| "fneg NaN = NaN"

fun fadd :: "pyfloat \<Rightarrow> pyfloat \<Rightarrow> pyfloat" where
  "fadd NaN _ = NaN"
| "fadd _ NaN = NaN"
| "fadd PInf NInf = NaN"
| "fadd NInf PInf = NaN"
| "fadd PInf _ = PInf"
| "fadd _ PInf = PInf"
| "fadd NInf _ = NInf"
| "fadd _ NInf = NInf"
| "fadd (Fin a) (Fin b) = fl (a + b)"

definition fsub :: "pyfloat \<Rightarrow> pyfloat \<Rightarrow> pyfloat" where
  "fsub a b = fadd a (fneg b)"

text \<open>The sign of a float: \<open>1\<close>, \<open>0\<close> or \<open>-1\<close> (\<open>0\<close> also for NaN).\<close>

fun fsgn :: "pyfloat \<Rightarrow> int" where
  "fsgn (Fin a) = (if 0 < a then 1 else if a < 0 then - 1 else 0)"
| "fsgn PInf = 1"
| "fsgn NInf = - 1"
| "fsgn NaN = 0"

definition inf_of_sign :: "int \<Rightarrow> pyfloat" where
  "inf_of_sign s = (if 0 < s then PInf else if s < 0 then NInf else NaN)"

fun fmul :: "pyfloat \<Rightarrow> pyfloat \<Rightarrow> pyfloat" where
  "fmul NaN _ = NaN"
| "fmul _ NaN = NaN"
| "fmul (Fin a) (Fin b) = fl (a * b)"
| "fmul x y = inf_of_sign (fsgn x * fsgn y)"

text \<open>Python's \<^verbatim>\<open>x / y\<close> on floats raises \<^verbatim>\<open>ZeroDivisionError\<close> when \<open>y\<close> is zero.\<close>

fun fdiv :: "pyfloat \<Rightarrow> pyfloat \<Rightarrow> py_error + pyfloat" where
  "fdiv NaN (Fin b) = (if b = 0 then Inl ZeroDivisionError else Inr NaN)"
| "fdiv NaN _ = Inr NaN"
| "fdiv _ NaN = Inr NaN"
| "fdiv (Fin a) (Fin b) = (if b = 0 then Inl ZeroDivisionError else Inr (fl (a / b)))"
| "fdiv (Fin a) _ = Inr (Fin 0)"
| "fdiv x (Fin b) =
     (if b = 0 then Inl ZeroDivisionError else Inr (inf_of_sign (fsgn x * fsgn (Fin b))))"
| "fdiv _ _ = Inr NaN"

text \<open>Comparisons: every comparison with NaN is false.\<close>

fun flt :: "pyfloat \<Rightarrow> pyfloat \<Rightarrow> bool" where
  "flt NaN _ = False"
| "flt _ NaN = False"
| "flt (Fin a) (Fin b) = (a < b)"
| "flt NInf NInf = False"
| "flt NInf _ = True"
| "flt _ NInf = False"
| "flt PInf _ = False"
| "flt _ PInf = True"

definition fgt :: "pyfloat \<Rightarrow> pyfloat \<Rightarrow> bool" where
  "fgt a b = flt b a"

fun fle :: "pyfloat \<Rightarrow> pyfloat \<Rightarrow> bool" where
  "fle NaN _ = False"
| "fle _ NaN = False"
| "fle a b = (\<not> flt b a)"

text \<open>
  Python's \<^verbatim>\<open>max(a, b)\<close> keeps its first argument unless the second is greater.
\<close>

definition max_py :: "pyfloat \<Rightarrow> pyfloat \<Rightarrow> pyfloat" where
  "max_py a b = (if fgt b a then b else a)"

text \<open>
  Python's \<^verbatim>\<open>round(x, ndigits)\<close> on a float, for the small non-negative \<open>ndigits\<close> the
  program uses (3 and 2): infinities and NaN round to themselves; a finite float is
  rounded to the nearest decimal with \<open>ndigits\<close> places, ties to even, decided on the
  exact value of the float, and that decimal is converted to the nearest float.
\<close>

fun round_py :: "pyfloat \<Rightarrow> nat \<Rightarrow> pyfloat" where
  "round_py (Fin a) ndigits = fl (of_int (round_half_even (a * 10 ^ ndigits)) / 10 ^ ndigits)"
| "round_py x ndigits = x"

text \<open>On an \<^verbatim>\<open>int\<close>, \<^verbatim>\<open>round(n, ndigits)\<close> with \<open>ndigits \<ge> 0\<close> is \<open>n\<close>.\<close>

fun round_num :: "pynum \<Rightarrow> nat \<Rightarrow> pynum" where
  "round_num (PyInt n) ndigits = PyInt n"
| "round_num (PyFloat x) ndigits = PyFloat (round_py x ndigits)"

text \<open>
  An \<^verbatim>\<open>int\<close> operand of a float operation is converted to the nearest float; Python raises
  \<^verbatim>\<open>OverflowError\<close> when the int is too large for a finite float.
\<close>

fun as_float :: "pynum \<Rightarrow> py_error + pyfloat" where
  "as_float (PyFloat x) = Inr x"
| "as_float (PyInt n) = (case fl (of_int n) of Fin r \<Rightarrow> Inr (Fin r) | _ \<Rightarrow> Inl OverflowError)"

text \<open>\<^verbatim>\<open>x * c\<close> for a number \<open>x\<close> and a float \<open>c\<close>.\<close>

definition mul_float :: "pynum \<Rightarrow> pyfloat \<Rightarrow> py_error + pyfloat" where
  "mul_float x c = ebind (as_float x) (\<lambda>a. Inr (fmul a c))"

text \<open>
  Mixed comparisons of Python are exact: an \<^verbatim>\<open>int\<close> is compared by its value, not by
  the float nearest to it.
\<close>

fun num_val :: "pynum \<Rightarrow> pyfloat" where
  "num_val (PyInt n) = Fin (of_int n)"
| "num_val (PyFloat x) = x"

definition num_le :: "pynum \<Rightarrow> pynum \<Rightarrow> bool" where
  "num_le a b = fle (num_val a) (num_val b)"

definition num_lt :: "pynum \<Rightarrow> pynum \<Rightarrow> bool" where
  "num_lt a b = flt (num_val a) (num_val b)"

section \<open>Configuration\<close>

text \<open>
  The two dictionaries of constants. A float literal such as \<^verbatim>\<open>0.192\<close> denotes the float
  nearest to the decimal. The factor stored under the key \<^verbatim>\<open>electricity_kwh\<close> is the field
  \<open>electricity_kwh_factor\<close>, since a log entry has a field \<open>electricity_kwh\<close> too; for the
  same reason the parameter \<^verbatim>\<open>user\<close> of \<^verbatim>\<open>fetch_logs\<close> is called \<open>usr\<close> below.
\<close>

record emission_factors =
  transport_km_car :: pyfloat
  transport_km_bus :: pyfloat
  transport_km_bike_walk :: pyfloat
  electricity_kwh_factor :: pyfloat
  meat_meal :: pyfloat
  veg_meal :: pyfloat
  plastic_item :: pyfloat

definition EMISSION_FACTORS :: emission_factors where
  "EMISSION_FACTORS =
     \<lparr> transport_km_car = fl (192 / 1000),
       transport_km_bus = fl (89 / 1000),
       transport_km_bike_walk = fl 0,
       electricity_kwh_factor = fl (82 / 100),
       meat_meal = fl 5,
       veg_meal = fl 2,
       plastic_item = fl (1 / 10) \<rparr>"

record baseline_assumptions =
  car_km_per_day :: pynum
  electricity_kwh_per_day :: pynum
  meat_meals_per_day :: pynum
  plastic_items_per_day :: pynum

definition BASELINE :: baseline_assumptions where
  "BASELINE =
     \<lparr> car_km_per_day = PyInt 10,
       electricity_kwh_per_day = PyInt 4,
       meat_meals_per_day = PyInt 1,
       plastic_items_per_day = PyInt 2 \<rparr>"

section \<open>Calculation\<close>

definition calculate_co2 ::
  "pynum \<Rightarrow> pynum \<Rightarrow> pynum \<Rightarrow> pynum \<Rightarrow> pynum \<Rightarrow> pynum \<Rightarrow> pynum \<Rightarrow> py_error + pyfloat" where
  "calculate_co2 car_km bus_km bike_walk_km electricity_kwh meat_meals veg_meals
       plastic_items_avoided =
     (let e = EMISSION_FACTORS; co2 = Fin 0 in
      ebind (mul_float car_km (transport_km_car e)) (\<lambda>t. let co2 = fadd co2 t in
      ebind (mul_float bus_km (transport_km_bus e)) (\<lambda>t. let co2 = fadd co2 t in
      ebind (mul_float bike_walk_km (transport_km_bike_walk e)) (\<lambda>t. let co2 = fadd co2 t in
      ebind (mul_float electricity_kwh (electricity_kwh_factor e)) (\<lambda>t. let co2 = fadd co2 t in
      ebind (mul_float meat_meals (meat_meal e)) (\<lambda>t. let co2 = fadd co2 t in
      ebind (mul_float veg_meals (veg_meal e)) (\<lambda>t. let co2 = fadd co2 t in
      ebind (mul_float plastic_items_avoided (plastic_item e)) (\<lambda>t. let co2 = fsub co2 t in
      Inr (round_py co2 3)))))))))"

definition baseline_daily_co2 :: "py_error + pyfloat" where
  "baseline_daily_co2 =
     (let b = BASELINE; e = EMISSION_FACTORS; base = Fin 0 in
      ebind (mul_float (car_km_per_day b) (transport_km_car e)) (\<lambda>t. let base = fadd base t in
      ebind (mul_float (electricity_kwh_per_day b) (electricity_kwh_factor e)) (\<lambda>t. let base = fadd base t in
      ebind (mul_float (meat_meals_per_day b) (meat_meal e)) (\<lambda>t. let base = fadd base t in
      ebind (mul_float (plastic_items_per_day b) (plastic_item e)) (\<lambda>t. let base = fadd base t in
      Inr (round_py base 3))))))"

text \<open>
  The formula of the specification, in its own words: the weighted sum of the seven
  inputs with the decimal coefficients, computed exactly (in the rational numbers), and
  that sum rounded to 3 decimal places. Rounding takes the nearest multiple of
  \<open>1/1000\<close> (a tie goes to the even multiple, as in Python's \<^verbatim>\<open>round\<close>), and the result is
  the float nearest to that decimal, since the program returns a float.
\<close>

definition weighted_sum_exact :: "rat \<Rightarrow> rat \<Rightarrow> rat \<Rightarrow> rat \<Rightarrow> rat \<Rightarrow> rat \<Rightarrow> rat \<Rightarrow> rat" where
  "weighted_sum_exact car_km bus_km bike_walk_km electricity_kwh meat_meals veg_meals
       plastic_items_avoided =
     car_km * (192 / 1000) + bus_km * (89 / 1000) + bike_walk_km * 0
       + electricity_kwh * (82 / 100) + meat_meals * 5 + veg_meals * 2
       - plastic_items_avoided * (1 / 10)"

definition round_exact :: "rat \<Rightarrow> nat \<Rightarrow> pyfloat" where
  "round_exact s ndigits = fl (of_int (round_half_even (s * 10 ^ ndigits)) / 10 ^ ndigits)"

text \<open>
  The same exact sum with the coefficients as the program stores them, that is, with
  the floats nearest to the decimals in place of the decimals.
\<close>

fun fin_val :: "pyfloat \<Rightarrow> rat" where
  "fin_val (Fin a) = a"
| "fin_val _ = 0"

definition weighted_sum_stored :: "rat \<Rightarrow> rat \<Rightarrow> rat \<Rightarrow> rat \<Rightarrow> rat \<Rightarrow> rat \<Rightarrow> rat \<Rightarrow> rat" where
  "weighted_sum_stored car_km bus_km bike_walk_km electricity_kwh meat_meals veg_meals
       plastic_items_avoided =
     (let e = EMISSION_FACTORS in
      car_km * fin_val (transport_km_car e) + bus_km * fin_val (transport_km_bus e)
        + bike_walk_km * fin_val (transport_km_bike_walk e)
        + electricity_kwh * fin_val (electricity_kwh_factor e)
        + meat_meals * fin_val (meat_meal e) + veg_meals * fin_val (veg_meal e)
        - plastic_items_avoided * fin_val (plastic_item e))"

text \<open>
  The inputs the comparison is stated for: an \<^verbatim>\<open>int\<close> or a finite \<^verbatim>\<open>float\<close> \<open>y\<close> whose exact
  value \<open>v\<close> is not negative and at most \<open>2 ^ 1000\<close> (far below the largest float, so that
  no product and no sum overflows).
\<close>

fun exact_val :: "pynum \<Rightarrow> rat option" where
  "exact_val (PyInt n) = Some (of_int n)"
| "exact_val (PyFloat (Fin a)) = Some a"
| "exact_val (PyFloat _) = None"

definition input_ok :: "pynum \<Rightarrow> rat \<Rightarrow> bool" where
  "input_ok y v = (exact_val y = Some v \<and> 0 \<le> v \<and> v \<le> 2 ^ 1000)"

text \<open>
  The quantities that bound what the float operations of \<^verbatim>\<open>calculate_co2\<close> can add to
  the exact sum. \<open>weighted_magnitude\<close> is the sum of the seven products without the sign
  of the last one; \<open>float_slack M\<close> bounds the error that seven float products, seven
  float additions and the conversion of the rounded decimal accumulate on a sum of
  magnitude \<open>M\<close>; \<open>eta\<close> is half the spacing of the smallest floats; and \<open>tie_gap x\<close> is
  the distance of \<open>x\<close> from the midpoint between the two integers around it, where
  rounding to an integer changes its result.
\<close>

definition weighted_magnitude :: "rat \<Rightarrow> rat \<Rightarrow> rat \<Rightarrow> rat \<Rightarrow> rat \<Rightarrow> rat \<Rightarrow> rat \<Rightarrow> rat" where
  "weighted_magnitude car_km bus_km bike_walk_km electricity_kwh meat_meals veg_meals
       plastic_items_avoided =
     car_km * (192 / 1000) + bus_km * (89 / 1000) + bike_walk_km * 0
       + electricity_kwh * (82 / 100) + meat_meals * 5 + veg_meals * 2
       + plastic_items_avoided * (1 / 10)"

definition float_slack :: "rat \<Rightarrow> rat" where
  "float_slack M = (M + 1) / 2 ^ 48"

definition eta :: rat where
  "eta = 1 / 2 ^ 1075"

definition tie_gap :: "rat \<Rightarrow> rat" where
  "tie_gap x = \<bar>x - of_int \<lfloor>x\<rfloor> - 1 / 2\<bar>"

section \<open>Savings against the baseline\<close>

text \<open>
  The three lines of \<^verbatim>\<open>main\<close> that follow the call of \<^verbatim>\<open>calculate_co2\<close>:
  \<^verbatim>\<open>saved = round(max(0.0, baseline - co2), 3)\<close> and
  \<^verbatim>\<open>pct = round((saved / baseline * 100) if baseline > 0 else 0, 2)\<close>. The baseline is a
  parameter here; \<^verbatim>\<open>main\<close> passes the value of \<^verbatim>\<open>baseline_daily_co2()\<close>. The result is
  the pair \<open>(saved, pct)\<close>; \<open>pct\<close> is the \<^verbatim>\<open>int\<close> 0 in the else branch and a float
  otherwise.
\<close>

definition float_mul :: "pyfloat \<Rightarrow> pynum \<Rightarrow> py_error + pyfloat" where
  "float_mul a y = ebind (as_float y) (\<lambda>b. Inr (fmul a b))"

definition savings :: "pyfloat \<Rightarrow> pyfloat \<Rightarrow> py_error + (pyfloat \<times> pynum)" where
  "savings baseline co2 =
     (let saved = round_py (max_py (Fin 0) (fsub baseline co2)) 3 in
      ebind (if fgt baseline (Fin 0)
             then ebind (fdiv saved baseline) (\<lambda>q.
                  ebind (float_mul q (PyInt 100)) (\<lambda>p. Inr (PyFloat p)))
             else Inr (PyInt 0)) (\<lambda>v.
      Inr (saved, round_num v 2)))"

text \<open>
  What a submission computes before it stores anything: \<open>co2\<close>, \<open>saved\<close> and \<open>pct\<close>.
\<close>

definition submit_report ::
  "pynum \<Rightarrow> pynum \<Rightarrow> pynum \<Rightarrow> pynum \<Rightarrow> pynum \<Rightarrow> pynum \<Rightarrow> pynum
     \<Rightarrow> py_error + (pyfloat \<times> pyfloat \<times> pynum)" where
  "submit_report car_km bus_km bike_walk_km electricity_kwh meat_meals veg_meals
       plastic_items_avoided =
     ebind (calculate_co2 car_km bus_km bike_walk_km electricity_kwh meat_meals veg_meals
              plastic_items_avoided) (\<lambda>co2.
     ebind baseline_daily_co2 (\<lambda>baseline.
     ebind (savings baseline co2) (\<lambda>sp.
     Inr (co2, fst sp, snd sp))))"

section \<open>The log store\<close>

text \<open>
  The dictionary \<^verbatim>\<open>data\<close> that \<^verbatim>\<open>insert_log\<close> receives, with the eleven keys it reads and
  the types \<^verbatim>\<open>main\<close> gives them: strings, floats and ints.
\<close>

record entry =
  user :: string
  date :: string
  car_km :: pyfloat
  bus_km :: pyfloat
  bike_walk_km :: pyfloat
  electricity_kwh :: pyfloat
  meat_meals :: int
  veg_meals :: int
  plastic_items_avoided :: int
  co2_kg :: pyfloat
  created_at :: string

text \<open>
  A row of the table \<^verbatim>\<open>logs\<close>. The key \<^verbatim>\<open>id INTEGER PRIMARY KEY\<close> is the rowid. A
  \<^verbatim>\<open>REAL\<close> column holds a float or NULL: SQLite stores a NaN as NULL.
\<close>

record log_row =
  col_id :: int
  col_user :: string
  col_date :: string
  col_car_km :: "pyfloat option"
  col_bus_km :: "pyfloat option"
  col_bike_walk_km :: "pyfloat option"
  col_electricity_kwh :: "pyfloat option"
  col_meat_meals :: int
  col_veg_meals :: int
  col_plastic_items_avoided :: int
  col_co2_kg :: "pyfloat option"
  col_created_at :: string

text \<open>
  The connection is modelled by the content of the table, the rows in the order of
  their insertion (which is rowid order as long as the rowids are assigned by counting
  up). A database file without the table is \<open>None\<close>; \<^verbatim>\<open>CREATE TABLE IF NOT EXISTS\<close>
  creates it empty and leaves an existing table alone.
\<close>

definition init_db :: "log_row list option \<Rightarrow> log_row list" where
  "init_db db = (case db of None \<Rightarrow> [] | Some t \<Rightarrow> t)"

definition sql_real :: "pyfloat \<Rightarrow> pyfloat option" where
  "sql_real x = (if x = NaN then None else Some x)"

definition fits_int64 :: "int \<Rightarrow> bool" where
  "fits_int64 n = (- (2 ^ 63) \<le> n \<and> n < 2 ^ 63)"

text \<open>
  The statement names no \<^verbatim>\<open>id\<close>, so SQLite assigns the rowid: 1 in an empty table,
  otherwise one more than the largest rowid in the table. Rowids are 64-bit: when the
  largest rowid is \<open>2^63 - 1\<close> already, the engine draws candidate rowids at random and
  takes the first that no row has; when none of its draws is free the statement fails
  and Python raises \<^verbatim>\<open>sqlite3.OperationalError\<close> (database or disk is full). The draws
  are an input of the model: \<open>cands\<close> is the list of candidates the engine would try.
\<close>

definition next_rowid :: "int list \<Rightarrow> log_row list \<Rightarrow> py_error + int" where
  "next_rowid cands t =
     (if t = [] then Inr 1
      else if Max (set (map col_id t)) < 2 ^ 63 - 1 then Inr (Max (set (map col_id t)) + 1)
      else (case find (\<lambda>v. v \<notin> set (map col_id t)) cands of
              Some v \<Rightarrow> Inr v
            | None \<Rightarrow> Inl OperationalError))"

definition stored :: "int \<Rightarrow> entry \<Rightarrow> log_row" where
  "stored i data =
     \<lparr> col_id = i,
       col_user = user data,
       col_date = date data,
       col_car_km = sql_real (car_km data),
       col_bus_km = sql_real (bus_km data),
       col_bike_walk_km = sql_real (bike_walk_km data),
       col_electricity_kwh = sql_real (electricity_kwh data),
       col_meat_meals = meat_meals data,
       col_veg_meals = veg_meals data,
       col_plastic_items_avoided = plastic_items_avoided data,
       col_co2_kg = sql_real (co2_kg data),
       col_created_at = created_at data \<rparr>"

text \<open>
  Binding a Python int that does not fit 64 bits raises \<^verbatim>\<open>OverflowError\<close> before the
  statement runs. A statement that fails inserts nothing. The first argument is the
  engine's list of rowid candidates (see \<open>next_rowid\<close>); the other two are the
  arguments of the source.
\<close>

definition insert_log :: "int list \<Rightarrow> log_row list \<Rightarrow> entry \<Rightarrow> py_error + log_row list" where
  "insert_log cands conn data =
     (if fits_int64 (meat_meals data) \<and> fits_int64 (veg_meals data)
         \<and> fits_int64 (plastic_items_avoided data)
      then ebind (next_rowid cands conn) (\<lambda>i. Inr (conn @ [stored i data]))
      else Inl OverflowError)"

text \<open>
  \<^verbatim>\<open>if user:\<close> is false for \<^verbatim>\<open>None\<close> and for the empty string. \<^verbatim>\<open>ORDER BY date ASC\<close>
  compares the texts byte by byte; rows with equal dates are kept in the order of the
  table here (SQL leaves their order open, and no statement below depends on it).
\<close>

definition fetch_logs :: "log_row list \<Rightarrow> string option \<Rightarrow> log_row list" where
  "fetch_logs conn usr =
     (case usr of
        None \<Rightarrow> sort_key col_date conn
      | Some u \<Rightarrow>
          if u \<noteq> [] then sort_key col_date (filter (\<lambda>r. col_user r = u) conn)
          else sort_key col_date conn)"

text \<open>The entry a row gives back; \<open>None\<close> when a \<^verbatim>\<open>REAL\<close> column reads as NULL.\<close>

definition row_entry :: "log_row \<Rightarrow> entry option" where
  "row_entry r =
     (case (col_car_km r, col_bus_km r, col_bike_walk_km r, col_electricity_kwh r, col_co2_kg r) of
        (Some c, Some b, Some w, Some k, Some v) \<Rightarrow>
          Some \<lparr> user = col_user r, date = col_date r, car_km = c, bus_km = b,
                 bike_walk_km = w, electricity_kwh = k, meat_meals = col_meat_meals r,
                 veg_meals = col_veg_meals r,
                 plastic_items_avoided = col_plastic_items_avoided r,
                 co2_kg = v, created_at = col_created_at r \<rparr>
      | _ \<Rightarrow> None)"

text \<open>
  Inserting a list of entries, one call of \<^verbatim>\<open>insert_log\<close> after the other; \<open>css\<close> holds
  the engine's rowid candidates for each call in turn (none when the list runs out).
\<close>

fun insert_all :: "int list list \<Rightarrow> log_row list \<Rightarrow> entry list \<Rightarrow> py_error + log_row list" where
  "insert_all css conn [] = Inr conn"
| "insert_all css conn (d # ds) =
     ebind (insert_log (case css of [] \<Rightarrow> [] | cs # _ \<Rightarrow> cs) conn d)
       (\<lambda>conn'. insert_all (tl css) conn' ds)"

text \<open>
  The three calls the program makes on the store, and the table after a call, whether
  the call returned or raised. A \<^verbatim>\<open>SELECT\<close> writes nothing.
\<close>

datatype db_call = Init_db | Insert_log "int list" entry | Fetch_logs "string option"

fun table_after :: "log_row list \<Rightarrow> db_call \<Rightarrow> log_row list" where
  "table_after t Init_db = init_db (Some t)"
| "table_after t (Insert_log cands data) =
     (case insert_log cands t data of Inr t' \<Rightarrow> t' | Inl _ \<Rightarrow> t)"
| "table_after t (Fetch_logs usr) = t"

section \<open>The page\<close>

text \<open>
  One run of \<^verbatim>\<open>main\<close> reads the widgets: the user label, the date (as the text
  \<^verbatim>\<open>isoformat\<close> gives), four float inputs, three int inputs and the submit button; \<open>w_now\<close>
  is the text of \<^verbatim>\<open>datetime.now().isoformat()\<close>, and \<open>w_rowid_cands\<close> are the rowid
  candidates the engine would draw during this run.
\<close>

record widgets =
  w_user :: string
  w_date_input :: string
  w_car_km :: pyfloat
  w_bus_km :: pyfloat
  w_bike_walk_km :: pyfloat
  w_electricity_kwh :: pyfloat
  w_meat_meals :: int
  w_veg_meals :: int
  w_plastic_items_avoided :: int
  w_submitted :: bool
  w_now :: string
  w_rowid_cands :: "int list"

text \<open>
  The number inputs have \<^verbatim>\<open>min_value=0.0\<close> or \<^verbatim>\<open>min_value=0\<close>: they deliver finite
  non-negative floats and non-negative ints.
\<close>

fun nonneg_float :: "pyfloat \<Rightarrow> bool" where
  "nonneg_float (Fin a) = (0 \<le> a)"
| "nonneg_float _ = False"

definition widgets_ok :: "widgets \<Rightarrow> bool" where
  "widgets_ok w =
     (nonneg_float (w_car_km w) \<and> nonneg_float (w_bus_km w)
      \<and> nonneg_float (w_bike_walk_km w) \<and> nonneg_float (w_electricity_kwh w)
      \<and> 0 \<le> w_meat_meals w \<and> 0 \<le> w_veg_meals w \<and> 0 \<le> w_plastic_items_avoided w)"

text \<open>
  \<^verbatim>\<open>main\<close>: open the store; on submission compute the report, build the record and
  insert it; then fetch the user's rows for the dashboard. The result is the table and
  the fetched rows. \<^verbatim>\<open>int(meat_meals)\<close> is the identity on an int.
\<close>

definition main :: "log_row list option \<Rightarrow> widgets \<Rightarrow> py_error + (log_row list \<times> log_row list)" where
  "main db w =
     (let conn = init_db db in
      ebind (if w_submitted w
             then ebind (submit_report (PyFloat (w_car_km w)) (PyFloat (w_bus_km w))
                           (PyFloat (w_bike_walk_km w)) (PyFloat (w_electricity_kwh w))
                           (PyInt (w_meat_meals w)) (PyInt (w_veg_meals w))
                           (PyInt (w_plastic_items_avoided w))) (\<lambda>rep.
                  insert_log (w_rowid_cands w) conn
                    \<lparr> user = w_user w,
                      date = w_date_input w,
                      car_km = w_car_km w,
                      bus_km = w_bus_km w,
                      bike_walk_km = w_bike_walk_km w,
                      electricity_kwh = w_electricity_kwh w,
                      meat_meals = w_meat_meals w,
                      veg_meals = w_veg_meals w,
                      plastic_items_avoided = w_plastic_items_avoided w,
                      co2_kg = fst rep,
                      created_at = w_now w \<rparr>)
             else Inr conn) (\<lambda>conn'.
      Inr (conn', fetch_logs conn' (Some (w_user w)))))"

text \<open>
  The database after a run of \<^verbatim>\<open>main\<close>: the table the run leaves, or, when the run raised,
  the table as \<^verbatim>\<open>init_db\<close> found or created it. A session is a sequence of runs, each with
  its own widget values, starting without a database file:
  \<open>foldl after_run None ws\<close>.
\<close>

definition after_run :: "log_row list option \<Rightarrow> widgets \<Rightarrow> log_row list option" where
  "after_run db w = (case main db w of Inr res \<Rightarrow> Some (fst res) | Inl err \<Rightarrow> Some (init_db db))"

text \<open>
  A row whose \<^verbatim>\<open>co2_kg\<close> is what \<^verbatim>\<open>calculate_co2\<close> returns on the row's seven quantities.
\<close>

definition row_co2_ok :: "log_row \<Rightarrow> bool" where
  "row_co2_ok r =
     (case (col_car_km r, col_bus_km r, col_bike_walk_km r, col_electricity_kwh r, col_co2_kg r) of
        (Some c, Some b, Some w, Some k, Some v) \<Rightarrow>
          calculate_co2 (PyFloat c) (PyFloat b) (PyFloat w) (PyFloat k)
            (PyInt (col_meat_meals r)) (PyInt (col_veg_meals r))
            (PyInt (col_plastic_items_avoided r)) = Inr v
      | _ \<Rightarrow> False)"

section \<open>Conditions and example data used in the statements\<close>

text \<open>An entry whose float fields are numbers, and one whose ints fit 64 bits.\<close>

definition no_nan :: "entry \<Rightarrow> bool" where
  "no_nan d = (car_km d \<noteq> NaN \<and> bus_km d \<noteq> NaN \<and> bike_walk_km d \<noteq> NaN
               \<and> electricity_kwh d \<noteq> NaN \<and> co2_kg d \<noteq> NaN)"

definition ints_fit :: "entry \<Rightarrow> bool" where
  "ints_fit d = (fits_int64 (meat_meals d) \<and> fits_int64 (veg_meals d)
                 \<and> fits_int64 (plastic_items_avoided d))"

definition bob_entry :: entry where
  "bob_entry =
     \<lparr> user = ''bob'', date = ''2024-03-02'', car_km = Fin 0, bus_km = Fin 0,
       bike_walk_km = Fin 0, electricity_kwh = Fin 0, meat_meals = 0, veg_meals = 0,
       plastic_items_avoided = 0, co2_kg = Fin 0, created_at = ''2024-03-02T08:00:00'' \<rparr>"

definition bob_table :: "log_row list" where
  "bob_table = [stored 1 bob_entry]"

definition anon_entry :: entry where
  "anon_entry = bob_entry \<lparr> user := '''', date := ''2024-03-01'' \<rparr>"

definition anon_table :: "log_row list" where
  "anon_table = bob_table @ [stored 2 anon_entry]"

definition alice_entries :: "entry list" where
  "alice_entries =
     [bob_entry \<lparr> user := ''alice'', date := ''2024-03-05'' \<rparr>,
      bob_entry \<lparr> user := ''alice'', date := ''2024-03-04'', meat_meals := 2 \<rparr>]"

definition alice_table :: "log_row list" where
  "alice_table =
     bob_table @
     [stored 2 (bob_entry \<lparr> user := ''alice'', date := ''2024-03-05'' \<rparr>),
      stored 3 (bob_entry \<lparr> user := ''alice'', date := ''2024-03-04'', meat_meals := 2 \<rparr>)]"

text \<open>A table whose only row has the largest rowid.\<close>

definition full_table :: "log_row list" where
  "full_table = [stored (2 ^ 63 - 1) bob_entry]"

definition backdated_entry :: entry where
  "backdated_entry = bob_entry \<lparr> created_at := ''1999-01-01T00:00:00'' \<rparr>"

text \<open>Floats that are non-negative or \<open>+inf\<close>, and finite floats between 0 and a bound.\<close>

fun nonneg_ext :: "pyfloat \<Rightarrow> bool" where
  "nonneg_ext (Fin a) = (0 \<le> a)"
| "nonneg_ext PInf = True"
| "nonneg_ext _ = False"

fun bounded_by :: "rat \<Rightarrow> pyfloat \<Rightarrow> bool" where
  "bounded_by B (Fin a) = (0 \<le> a \<and> a \<le> B)"
| "bounded_by B _ = False"

text \<open>A run of the page with the inputs of the specification's example.\<close>

definition run_widgets :: widgets where
  "run_widgets =
     \<lparr> w_user = ''alice'', w_date_input = ''2024-03-05'', w_car_km = Fin 10, w_bus_km = Fin 0,
       w_bike_walk_km = Fin 0, w_electricity_kwh = Fin 4, w_meat_meals = 1, w_veg_meals = 0,
       w_plastic_items_avoided = 2, w_submitted = True, w_now = ''2024-03-05T09:30:00'',
       w_rowid_cands = [] \<rparr>"

definition run_entry :: entry where
  "run_entry =
     \<lparr> user = ''alice'', date = ''2024-03-05'', car_km = Fin 10, bus_km = Fin 0,
       bike_walk_km = Fin 0, electricity_kwh = Fin 4, meat_meals = 1, veg_meals = 0,
       plastic_items_avoided = 2, co2_kg = Fin 10, created_at = ''2024-03-05T09:30:00'' \<rparr>"

definition run_table :: "log_row list" where
  "run_table = [stored 1 run_entry]"

definition run_table2 :: "log_row list" where
  "run_table2 = [stored 1 run_entry, stored 2 run_entry]"

section \<open>Sequencing calls that may raise\<close>

lemma ebind_Inr_iff: "ebind m f = Inr y \<longleftrightarrow> (\<exists>v. m = Inr v \<and> f v = Inr y)"
  by (cases m) (simp_all add: ebind_def)

lemma ebind_Inr [simp]: "ebind (Inr v) f = f v"
  by (simp add: ebind_def)

lemma ebind_Inl [simp]: "ebind (Inl e) f = Inl e"
  by (simp add: ebind_def)

section \<open>Properties of the rounding\<close>

subsection \<open>The exponent\<close>

lemma bit_len_bounds: "0 < n \<Longrightarrow> 2 ^ (bit_len n - 1) \<le> n \<and> n < 2 ^ bit_len n"
proof (induction n rule: bit_len.induct)
  case (1 n)
  show ?case
  proof (cases "n div 2 = 0")
    case True
    with "1.prems" have "n = 1" by (simp add: div_eq_0_iff)
    then show ?thesis by (simp add: bit_len.simps)
  next
    case False
    then have pos: "0 < n div 2" by simp
    from "1.IH" "1.prems" pos
    have ih: "2 ^ (bit_len (n div 2) - 1) \<le> n div 2" "n div 2 < 2 ^ bit_len (n div 2)"
      by auto
    have bl: "bit_len n = Suc (bit_len (n div 2))"
      using "1.prems" by (subst bit_len.simps) simp
    have pos': "0 < bit_len (n div 2)"
      using pos by (subst bit_len.simps) simp
    then obtain k where k: "bit_len (n div 2) = Suc k" by (cases "bit_len (n div 2)") auto
    have "2 * 2 ^ k \<le> 2 * (n div 2)" using ih(1) k by simp
    also have "\<dots> \<le> n" by simp
    finally have lo: "2 ^ (bit_len n - 1) \<le> n" by (simp add: bl k)
    have "n < 2 * (n div 2) + 2" by presburger
    also have "\<dots> \<le> 2 * 2 ^ bit_len (n div 2)" using ih(2) by simp
    finally have hi: "n < 2 ^ bit_len n" by (simp add: bl)
    from lo hi show ?thesis by simp
  qed
qed

lemma bit_len_pos: "0 < n \<Longrightarrow> 0 < bit_len n"
  by (subst bit_len.simps) simp

lemma ilog2_bounds:
  assumes "0 < x"
  shows "2 powi (ilog2 x) \<le> x" and "x < 2 powi (ilog2 x + 1)"
proof -
  show "2 powi (ilog2 x) \<le> x"
  proof (cases "1 \<le> x")
    case True
    define n where "n = nat \<lfloor>x\<rfloor>"
    have npos: "0 < n" using True by (simp add: n_def)
    have nle: "of_nat n \<le> x" using True by (simp add: n_def)
    from bit_len_bounds[OF npos] have "2 ^ (bit_len n - 1) \<le> n" by simp
    then have "(2::rat) ^ (bit_len n - 1) \<le> of_nat n"
      by (metis of_nat_le_iff of_nat_numeral of_nat_power)
    then have r: "(2::rat) ^ (bit_len n - 1) \<le> x" using nle by (rule order_trans)
    have "ilog2 x = int (bit_len n - 1)"
      using True bit_len_pos[OF npos] by (simp add: ilog2_def n_def)
    then show ?thesis using r by (simp only: power_int_of_nat)
  next
    case False
    then have x1: "x < 1" by simp
    define c where "c = \<lceil>1 / x\<rceil>"
    define n where "n = nat (c - 1)"
    have "1 < 1 / x" using assms x1 by simp
    then have c2: "2 \<le> c" unfolding c_def by (simp add: less_ceiling_iff)
    then have npos: "0 < n" by (simp add: n_def)
    have cn: "(of_int c :: rat) = of_nat n + 1"
    proof -
      have "c = int n + 1" using c2 by (simp add: n_def)
      then show ?thesis by simp
    qed
    have "1 / x \<le> of_int c" unfolding c_def by (rule le_of_int_ceiling)
    then have up: "1 / x \<le> of_nat n + 1" by (simp only: cn)
    from bit_len_bounds[OF npos] have "n < 2 ^ bit_len n" by simp
    then have "n + 1 \<le> 2 ^ bit_len n" by simp
    then have "(of_nat (n + 1) :: rat) \<le> of_nat (2 ^ bit_len n)"
      by (rule of_nat_mono)
    then have "(of_nat n + 1 :: rat) \<le> 2 ^ bit_len n" by simp
    with up have "1 / x \<le> 2 ^ bit_len n" by simp
    then have "1 \<le> 2 ^ bit_len n * x" using assms by (simp add: field_simps)
    then have "1 / 2 ^ bit_len n \<le> x" by (simp add: field_simps)
    moreover have "ilog2 x = - int (bit_len n)" using False by (simp add: ilog2_def n_def c_def)
    ultimately show ?thesis by (simp add: power_int_minus_divide)
  qed
  show "x < 2 powi (ilog2 x + 1)"
  proof (cases "1 \<le> x")
    case True
    define n where "n = nat \<lfloor>x\<rfloor>"
    have npos: "0 < n" using True by (simp add: n_def)
    have "x < of_int \<lfloor>x\<rfloor> + 1" by linarith
    also have "\<dots> = of_nat n + 1" using True by (simp add: n_def)
    finally have xl: "x < of_nat n + 1" .
    from bit_len_bounds[OF npos] have "n < 2 ^ bit_len n" by simp
    then have "n + 1 \<le> 2 ^ bit_len n" by simp
    then have "(of_nat (n + 1) :: rat) \<le> of_nat (2 ^ bit_len n)"
      by (rule of_nat_mono)
    then have "(of_nat n + 1 :: rat) \<le> 2 ^ bit_len n" by simp
    with xl have "x < 2 ^ bit_len n" by simp
    moreover have "ilog2 x + 1 = int (bit_len n)"
      using True by (simp add: ilog2_def n_def)
    ultimately show ?thesis by simp
  next
    case False
    then have x1: "x < 1" by simp
    define c where "c = \<lceil>1 / x\<rceil>"
    define n where "n = nat (c - 1)"
    have "1 < 1 / x" using assms x1 by simp
    then have c2: "2 \<le> c" unfolding c_def by (simp add: less_ceiling_iff)
    then have npos: "0 < n" by (simp add: n_def)
    have cn: "(of_int c :: rat) = of_nat n + 1"
    proof -
      have "c = int n + 1" using c2 by (simp add: n_def)
      then show ?thesis by simp
    qed
    have "of_int c - 1 < 1 / x" unfolding c_def by linarith
    then have lo: "of_nat n < 1 / x" by (simp only: cn add_diff_cancel)
    from bit_len_bounds[OF npos] have "2 ^ (bit_len n - 1) \<le> n" by simp
    then have "(2::rat) ^ (bit_len n - 1) \<le> of_nat n"
      by (metis of_nat_le_iff of_nat_numeral of_nat_power)
    from this lo have "(2::rat) ^ (bit_len n - 1) < 1 / x" by (rule le_less_trans)
    then have "x * 2 ^ (bit_len n - 1) < 1" using assms by (simp add: field_simps)
    then have "x < 1 / 2 ^ (bit_len n - 1)" by (simp add: field_simps)
    moreover have "ilog2 x + 1 = - int (bit_len n - 1)"
      using False bit_len_pos[OF npos] by (simp add: ilog2_def n_def c_def)
    ultimately show ?thesis by (simp add: power_int_minus_divide)
  qed
qed

lemma powi2_mono: "a \<le> b \<Longrightarrow> (2::rat) powi a \<le> 2 powi b"
  by (rule power_int_increasing) simp_all

lemma powi2_less_imp: "(2::rat) powi a < 2 powi b \<Longrightarrow> a < b"
  using powi2_mono[of b a] by (cases "a < b") auto

lemma ilog2_unique:
  assumes "2 powi e \<le> x" "x < 2 powi (e + 1)"
  shows "ilog2 x = e"
proof -
  have pos: "0 < x" using assms(1) by (rule less_le_trans[rotated]) simp
  from ilog2_bounds[OF pos] assms
  have "(2::rat) powi e < 2 powi (ilog2 x + 1)" "(2::rat) powi (ilog2 x) < 2 powi (e + 1)"
    by simp_all
  then have "e < ilog2 x + 1" "ilog2 x < e + 1" by (auto dest: powi2_less_imp)
  then show ?thesis by simp
qed

subsection \<open>Rounding to the nearest integer\<close>

lemma rhe_eqI: "\<bar>x - of_int n\<bar> < 1 / 2 \<Longrightarrow> round_half_even x = n"
proof -
  assume a: "\<bar>x - of_int n\<bar> < 1 / 2"
  show ?thesis
  proof (cases "of_int n \<le> x")
    case True
    with a have "\<lfloor>x\<rfloor> = n" by (auto simp: floor_eq_iff abs_less_iff)
    then show ?thesis using a True by (simp add: round_half_even_def Let_def)
  next
    case False
    with a have f: "\<lfloor>x\<rfloor> = n - 1" by (auto simp: floor_eq_iff abs_less_iff)
    have "1 / 2 < x - of_int (n - 1)" using a False by (auto simp: abs_less_iff)
    then show ?thesis using f by (simp add: round_half_even_def Let_def)
  qed
qed

lemma rhe_tieI: "\<bar>x - of_int n\<bar> = 1 / 2 \<Longrightarrow> even n \<Longrightarrow> round_half_even x = n"
proof -
  assume a: "\<bar>x - of_int n\<bar> = 1 / 2" and ev: "even n"
  from a have "x = of_int n + 1 / 2 \<or> x = of_int n - 1 / 2" by (auto simp: abs_if split: if_splits)
  then show ?thesis
  proof
    assume x: "x = of_int n + 1 / 2"
    then have "\<lfloor>x\<rfloor> = n" by (auto simp: floor_eq_iff)
    then show ?thesis using x ev by (simp add: round_half_even_def Let_def)
  next
    assume x: "x = of_int n - 1 / 2"
    then have "\<lfloor>x\<rfloor> = n - 1" by (auto simp: floor_eq_iff)
    then show ?thesis using x ev by (simp add: round_half_even_def Let_def)
  qed
qed

lemma rhe_nearestI:
  "\<bar>x - of_int n\<bar> < 1 / 2 \<or> \<bar>x - of_int n\<bar> = 1 / 2 \<and> even n \<Longrightarrow> round_half_even x = n"
  using rhe_eqI[of x n] rhe_tieI[of x n] by blast

lemma rhe_of_int [simp]: "round_half_even (of_int n) = n"
  by (rule rhe_eqI) simp

lemma rhe_cases:
  "round_half_even x = \<lfloor>x\<rfloor> \<and> x - of_int \<lfloor>x\<rfloor> \<le> 1 / 2
   \<or> round_half_even x = \<lfloor>x\<rfloor> + 1 \<and> 1 / 2 \<le> x - of_int \<lfloor>x\<rfloor>"
  by (auto simp: round_half_even_def Let_def)

lemma rhe_mono: "x \<le> y \<Longrightarrow> round_half_even x \<le> round_half_even y"
proof -
  assume xy: "x \<le> y"
  then have fl: "\<lfloor>x\<rfloor> \<le> \<lfloor>y\<rfloor>" by (rule floor_mono)
  show ?thesis
  proof (cases "\<lfloor>x\<rfloor> = \<lfloor>y\<rfloor>")
    case True
    then have d: "x - of_int \<lfloor>x\<rfloor> \<le> y - of_int \<lfloor>y\<rfloor>" using xy by simp
    show ?thesis
      using d True by (auto simp: round_half_even_def Let_def)
  next
    case False
    with fl have "\<lfloor>x\<rfloor> + 1 \<le> \<lfloor>y\<rfloor>" by simp
    moreover have "round_half_even x \<le> \<lfloor>x\<rfloor> + 1" using rhe_cases[of x] by auto
    moreover have "\<lfloor>y\<rfloor> \<le> round_half_even y" using rhe_cases[of y] by auto
    ultimately show ?thesis by linarith
  qed
qed

lemma rhe_nonneg: "0 \<le> x \<Longrightarrow> 0 \<le> round_half_even x"
  using rhe_mono[of 0 x] rhe_of_int[of 0] by simp

lemma rhe_nonpos: "x \<le> 0 \<Longrightarrow> round_half_even x \<le> 0"
  using rhe_mono[of x 0] rhe_of_int[of 0] by simp

lemma rhe_le_int: "x \<le> of_int k \<Longrightarrow> round_half_even x \<le> k"
  using rhe_mono[of x "of_int k"] by simp

lemma rhe_ge_int: "of_int k \<le> x \<Longrightarrow> k \<le> round_half_even x"
  using rhe_mono[of "of_int k" x] by simp

subsection \<open>Rounding to the nearest float\<close>

lemma p2_add: "(2::rat) powi (a + b) = 2 powi a * 2 powi b"
  by (simp add: power_int_add)

lemma p2_diff: "(2::rat) powi (a - b) = 2 powi a / 2 powi b"
  by (simp add: power_int_diff)

lemma p2_int: "0 \<le> k \<Longrightarrow> (2::rat) powi k = of_int (2 ^ nat k)"
  by (simp add: power_int_nonneg_exp)

lemma powi2_le_imp: "(2::rat) powi a \<le> 2 powi b \<Longrightarrow> a \<le> b"
proof (rule ccontr)
  assume le: "(2::rat) powi a \<le> 2 powi b" and "\<not> a \<le> b"
  then have "b < a" by simp
  then have "(2::rat) powi b < 2 powi a" by (rule power_int_strict_increasing) simp
  with le show False by simp
qed

lemma fl_val_nz:
  "x \<noteq> 0 \<Longrightarrow> q = max (ilog2 \<bar>x\<bar>) (- 1022) - 52 \<Longrightarrow>
   fl_val x = of_int (round_half_even (x / 2 powi q)) * 2 powi q"
  by (simp add: fl_val_def Let_def)

lemma fl_val_0 [simp]: "fl_val 0 = 0"
  by (simp add: fl_val_def)

lemma fl_val_eqI:
  assumes "2 powi e \<le> \<bar>x\<bar>" "\<bar>x\<bar> < 2 powi (e + 1)" "q = max e (- 1022) - 52"
    and "\<bar>x / 2 powi q - of_int n\<bar> < 1 / 2
         \<or> \<bar>x / 2 powi q - of_int n\<bar> = 1 / 2 \<and> even n"
  shows "fl_val x = of_int n * 2 powi q"
proof -
  have e: "ilog2 \<bar>x\<bar> = e" using assms(1,2) by (rule ilog2_unique)
  have "0 < \<bar>x\<bar>" by (rule less_le_trans[OF _ assms(1)]) simp
  then have nz: "x \<noteq> 0" by simp
  have "round_half_even (x / 2 powi q) = n" using assms(4) by (rule rhe_nearestI)
  then show ?thesis using fl_val_nz[OF nz, of q] e assms(3) by simp
qed

lemma fl_eqI:
  assumes "2 powi e \<le> \<bar>x\<bar>" "\<bar>x\<bar> < 2 powi (e + 1)" "q = max e (- 1022) - 52"
    and "\<bar>x / 2 powi q - of_int n\<bar> < 1 / 2
         \<or> \<bar>x / 2 powi q - of_int n\<bar> = 1 / 2 \<and> even n"
    and "r = of_int n * 2 powi q" and "\<bar>r\<bar> < 2 ^ 1024"
  shows "fl x = Fin r"
proof -
  have "fl_val x = r" using fl_val_eqI[OF assms(1-4)] assms(5) by simp
  then show ?thesis using assms(6) by (simp add: fl_def Let_def abs_less_iff not_le)
qed

text \<open>Rounding keeps the sign.\<close>

lemma fl_val_nonneg: "0 \<le> x \<Longrightarrow> 0 \<le> fl_val x"
proof (cases "x = 0")
  case False
  assume "0 \<le> x"
  then have "0 \<le> x / 2 powi (max (ilog2 \<bar>x\<bar>) (- 1022) - 52)" by simp
  then have "0 \<le> round_half_even (x / 2 powi (max (ilog2 \<bar>x\<bar>) (- 1022) - 52))"
    by (rule rhe_nonneg)
  then show ?thesis using fl_val_nz[OF False refl] by simp
qed simp

lemma fl_val_nonpos: "x \<le> 0 \<Longrightarrow> fl_val x \<le> 0"
proof (cases "x = 0")
  case False
  assume "x \<le> 0"
  then have "x / 2 powi (max (ilog2 \<bar>x\<bar>) (- 1022) - 52) \<le> 0"
    by (simp add: divide_nonpos_pos)
  then have "round_half_even (x / 2 powi (max (ilog2 \<bar>x\<bar>) (- 1022) - 52)) \<le> 0"
    by (rule rhe_nonpos)
  then show ?thesis using fl_val_nz[OF False refl] by (simp add: mult_nonpos_nonneg)
qed simp

text \<open>
  A multiple \<open>m * 2^q\<close> with at most 53 bits in \<open>m\<close> and \<open>q\<close> not below the subnormal
  spacing is a float: rounding returns it. Every rounded value is of that form, so
  rounding twice is rounding once.
\<close>

lemma fl_val_fix:
  assumes m: "\<bar>m\<bar> \<le> 2 ^ 53" and q: "- 1074 \<le> q"
  shows "fl_val (of_int m * 2 powi q) = of_int m * 2 powi q"
proof (cases "m = 0")
  case True
  then show ?thesis by simp
next
  case False
  define r :: rat where "r = of_int m * 2 powi q"
  define e' where "e' = ilog2 \<bar>r\<bar>"
  define q' where "q' = max e' (- 1022) - 52"
  have rnz: "r \<noteq> 0" using False by (simp add: r_def)
  have absr: "\<bar>r\<bar> = of_int \<bar>m\<bar> * 2 powi q" by (simp add: r_def abs_mult)
  have rpos: "0 < \<bar>r\<bar>" using rnz by simp
  have lo: "2 powi e' \<le> \<bar>r\<bar>" and hi: "\<bar>r\<bar> < 2 powi (e' + 1)"
    unfolding e'_def using ilog2_bounds[OF rpos] by simp_all
  have "\<exists>k. r / 2 powi q' = of_int k"
  proof (cases "q' \<le> q")
    case True
    have "r / 2 powi q' = of_int m * 2 powi (q - q')" by (simp add: r_def p2_diff)
    also have "\<dots> = of_int m * of_int (2 ^ nat (q - q'))" using True by (simp add: p2_int)
    also have "\<dots> = of_int (m * 2 ^ nat (q - q'))" by simp
    finally show ?thesis by blast
  next
    case False
    then have qq: "q < q'" by simp
    with q have e1: "- 1022 < e'" by (simp add: q'_def max_def split: if_splits)
    then have q'e: "q' = e' - 52" by (simp add: q'_def)
    have "of_int \<bar>m\<bar> \<le> (2::rat) ^ 53" using m
      by (metis of_int_le_iff of_int_numeral of_int_power)
    then have "\<bar>r\<bar> \<le> 2 ^ 53 * 2 powi q" unfolding absr
      by (intro mult_right_mono) simp_all
    also have "\<dots> = 2 powi (53 + q)" by (simp add: p2_add)
    finally have "(2::rat) powi e' \<le> 2 powi (53 + q)" using lo by simp
    then have "e' \<le> 53 + q" by (rule powi2_le_imp)
    with qq q'e have e'q: "e' = 53 + q" by simp
    from lo have "(2::rat) ^ 53 * 2 powi q \<le> of_int \<bar>m\<bar> * 2 powi q"
      unfolding absr e'q by (simp add: p2_add)
    then have "(2::rat) ^ 53 \<le> of_int \<bar>m\<bar>" by simp
    then have "2 ^ 53 \<le> \<bar>m\<bar>"
      by (metis of_int_le_iff of_int_numeral of_int_power)
    with m have am: "\<bar>m\<bar> = 2 ^ 53" by simp
    have q'q: "q' = q + 1" using q'e e'q by simp
    have rq: "r / 2 powi q' = of_int m / 2" by (simp add: r_def q'q p2_add)
    have "m = 2 ^ 53 \<or> m = - (2 ^ 53)" using am by (auto simp: abs_if split: if_splits)
    then have "(of_int m :: rat) / 2 = of_int (m div 2)" by auto
    with rq have "r / 2 powi q' = of_int (m div 2)" by (simp only:)
    then show ?thesis by blast
  qed
  then obtain k where k: "r / 2 powi q' = of_int k" by blast
  have "fl_val r = of_int (round_half_even (r / 2 powi q')) * 2 powi q'"
    using fl_val_nz[OF rnz, of q'] by (simp add: q'_def e'_def)
  also have "\<dots> = (r / 2 powi q') * 2 powi q'" by (simp add: k)
  also have "\<dots> = r" by simp
  finally show ?thesis by (simp add: r_def)
qed

lemma fl_val_repr:
  "\<exists>m q. fl_val x = of_int m * 2 powi q \<and> \<bar>m\<bar> \<le> 2 ^ 53 \<and> - 1074 \<le> q"
proof (cases "x = 0")
  case True
  have "fl_val x = of_int 0 * 2 powi 0 \<and> \<bar>0::int\<bar> \<le> 2 ^ 53 \<and> - 1074 \<le> (0::int)"
    using True by simp
  then show ?thesis by blast
next
  case False
  define e where "e = ilog2 \<bar>x\<bar>"
  define q where "q = max e (- 1022) - 52"
  define m where "m = round_half_even (x / 2 powi q)"
  have xpos: "0 < \<bar>x\<bar>" using False by simp
  have hi: "\<bar>x\<bar> < 2 powi (e + 1)" unfolding e_def using ilog2_bounds[OF xpos] by simp
  have qge: "- 1074 \<le> q" by (simp add: q_def)
  have eq: "e + 1 - q \<le> 53" by (simp add: q_def)
  have "\<bar>x / 2 powi q\<bar> = \<bar>x\<bar> / 2 powi q" by (simp add: abs_divide)
  also have "\<dots> < 2 powi (e + 1) / 2 powi q" using hi by (simp add: divide_strict_right_mono)
  also have "\<dots> = 2 powi (e + 1 - q)" by (simp add: p2_diff)
  also have "\<dots> \<le> 2 powi 53" using eq by (rule powi2_mono)
  finally have b: "\<bar>x / 2 powi q\<bar> < 2 ^ 53" by simp
  have "x / 2 powi q \<le> 2 ^ 53" using b by linarith
  then have "x / 2 powi q \<le> of_int (2 ^ 53)" by simp
  then have m1: "m \<le> 2 ^ 53" unfolding m_def by (rule rhe_le_int)
  have "- (2 ^ 53) \<le> x / 2 powi q" using b by linarith
  then have "of_int (- (2 ^ 53)) \<le> x / 2 powi q" by simp
  then have m2: "- (2 ^ 53) \<le> m" unfolding m_def by (rule rhe_ge_int)
  from m1 m2 have mb: "\<bar>m\<bar> \<le> 2 ^ 53" by simp
  have "fl_val x = of_int m * 2 powi q"
    using fl_val_nz[OF False, of q] by (simp add: q_def e_def m_def)
  with mb qge show ?thesis by blast
qed

lemma fl_val_idem: "fl_val (fl_val x) = fl_val x"
proof -
  obtain m q where "fl_val x = of_int m * 2 powi q" "\<bar>m\<bar> \<le> 2 ^ 53" "- 1074 \<le> q"
    using fl_val_repr[of x] by blast
  then show ?thesis using fl_val_fix[of m q] by simp
qed

text \<open>Rounding is monotone on positive numbers.\<close>

lemma fl_val_mono:
  assumes xpos: "0 < x" and xy: "x \<le> y"
  shows "fl_val x \<le> fl_val y"
proof -
  define ex where "ex = ilog2 x"
  define ey where "ey = ilog2 y"
  define qx where "qx = max ex (- 1022) - 52"
  define qy where "qy = max ey (- 1022) - 52"
  have ypos: "0 < y" using xpos xy by simp
  have xnz: "x \<noteq> 0" and ynz: "y \<noteq> 0" using xpos ypos by simp_all
  have bx: "2 powi ex \<le> x" "x < 2 powi (ex + 1)"
    unfolding ex_def using ilog2_bounds[OF xpos] by simp_all
  have by': "2 powi ey \<le> y" "y < 2 powi (ey + 1)"
    unfolding ey_def using ilog2_bounds[OF ypos] by simp_all
  have fx: "fl_val x = of_int (round_half_even (x / 2 powi qx)) * 2 powi qx"
    using fl_val_nz[OF xnz, of qx] xpos by (simp add: qx_def ex_def)
  have fy: "fl_val y = of_int (round_half_even (y / 2 powi qy)) * 2 powi qy"
    using fl_val_nz[OF ynz, of qy] ypos by (simp add: qy_def ey_def)
  have "(2::rat) powi ex < 2 powi (ey + 1)" using bx(1) xy by'(2) by linarith
  then have "ex < ey + 1" by (rule powi2_less_imp)
  then have exy: "ex \<le> ey" by simp
  then have qxy: "qx \<le> qy" by (simp add: qx_def qy_def)
  show ?thesis
  proof (cases "qx = qy")
    case True
    have "x / 2 powi qy \<le> y / 2 powi qy" using xy by (simp add: divide_right_mono)
    then have "round_half_even (x / 2 powi qy) \<le> round_half_even (y / 2 powi qy)"
      by (rule rhe_mono)
    then have "(of_int (round_half_even (x / 2 powi qy)) :: rat)
                 \<le> of_int (round_half_even (y / 2 powi qy))" by simp
    then show ?thesis unfolding fx fy True by (rule mult_right_mono) simp
  next
    case False
    with qxy have lt: "qx < qy" by simp
    have "- 1074 \<le> qx" by (simp add: qx_def)
    with lt have ey1: "- 1022 < ey" by (simp add: qy_def max_def split: if_splits)
    then have qye: "qy = ey - 52" by (simp add: qy_def)
    from lt qye have ex_lt: "ex < ey" by (simp add: qx_def max_def split: if_splits)
    have dpos: "0 \<le> ey - qx" using lt qye by simp
    \<comment> \<open>the larger argument rounds to at least \<open>2^ey\<close>\<close>
    have "(2::rat) powi 52 = 2 powi ey / 2 powi qy" by (simp add: qye flip: p2_diff)
    also have "\<dots> \<le> y / 2 powi qy" using by'(1) by (simp add: divide_right_mono)
    finally have "of_int (2 ^ 52) \<le> y / 2 powi qy" by simp
    then have "2 ^ 52 \<le> round_half_even (y / 2 powi qy)" by (rule rhe_ge_int)
    then have "(of_int (2 ^ 52) :: rat) \<le> of_int (round_half_even (y / 2 powi qy))"
      by (simp only: of_int_le_iff)
    then have "(2::rat) ^ 52 * 2 powi qy \<le> fl_val y"
      unfolding fy by (intro mult_right_mono) simp_all
    moreover have "(2::rat) ^ 52 * 2 powi qy = 2 powi ey" by (simp add: qye p2_diff)
    ultimately have ylo: "2 powi ey \<le> fl_val y" by simp
    \<comment> \<open>the smaller argument rounds to at most \<open>2^ey\<close>\<close>
    have "(2::rat) powi (ex + 1) \<le> 2 powi ey" using ex_lt by (intro powi2_mono) simp
    with bx(2) have "x \<le> 2 powi ey" by simp
    then have "x / 2 powi qx \<le> 2 powi ey / 2 powi qx" by (simp add: divide_right_mono)
    also have "\<dots> = 2 powi (ey - qx)" by (simp add: p2_diff)
    also have "\<dots> = of_int (2 ^ nat (ey - qx))" using dpos by (rule p2_int)
    finally have "round_half_even (x / 2 powi qx) \<le> 2 ^ nat (ey - qx)" by (rule rhe_le_int)
    then have "(of_int (round_half_even (x / 2 powi qx)) :: rat) \<le> of_int (2 ^ nat (ey - qx))"
      by (simp only: of_int_le_iff)
    then have "fl_val x \<le> of_int (2 ^ nat (ey - qx)) * 2 powi qx"
      unfolding fx by (intro mult_right_mono) simp_all
    also have "\<dots> = 2 powi (ey - qx) * 2 powi qx" using p2_int[OF dpos] by simp
    also have "\<dots> = 2 powi ey" by (simp flip: p2_add)
    finally have "fl_val x \<le> 2 powi ey" .
    with ylo show ?thesis by simp
  qed
qed

lemma fl_cases:
  "fl x = Fin (fl_val x) \<and> \<bar>fl_val x\<bar> < 2 ^ 1024
   \<or> fl x = PInf \<and> 2 ^ 1024 \<le> fl_val x
   \<or> fl x = NInf \<and> fl_val x \<le> - (2 ^ 1024)"
  by (auto simp: fl_def Let_def)

lemma fl_Fin_iff: "fl x = Fin r \<longleftrightarrow> r = fl_val x \<and> \<bar>fl_val x\<bar> < 2 ^ 1024"
  by (auto simp: fl_def Let_def)

lemma fl_0 [simp]: "fl 0 = Fin 0"
  by (simp add: fl_def)

section \<open>Evaluating float operations\<close>

text \<open>
  A concrete float operation is evaluated by giving the exponent \<open>e\<close>, the spacing
  exponent \<open>q\<close> and the rounded multiple \<open>n\<close>; the kernel checks the inequalities of
  \<open>fl_eqI\<close> on the numerals.
\<close>

lemma as_floatI: "fl (of_int n) = Fin r \<Longrightarrow> as_float (PyInt n) = Inr (Fin r)"
  by simp

lemma mul_floatI:
  "as_float x = Inr (Fin a) \<Longrightarrow> fl (a * c) = Fin r \<Longrightarrow> mul_float x (Fin c) = Inr (Fin r)"
  by (simp add: mul_float_def ebind_def)

lemma float_mulI:
  "as_float y = Inr (Fin b) \<Longrightarrow> fl (a * b) = Fin r \<Longrightarrow> float_mul (Fin a) y = Inr (Fin r)"
  by (simp add: float_mul_def ebind_def)

lemma faddI: "fl (a + b) = Fin r \<Longrightarrow> fadd (Fin a) (Fin b) = Fin r"
  by simp

lemma fsubI: "fl (a - b) = Fin r \<Longrightarrow> fsub (Fin a) (Fin b) = Fin r"
  by (simp add: fsub_def)

lemma fdivI: "b \<noteq> 0 \<Longrightarrow> fl (a / b) = Fin r \<Longrightarrow> fdiv (Fin a) (Fin b) = Inr (Fin r)"
  by simp

lemma round_pyI:
  "\<bar>a * 10 ^ nd - of_int k\<bar> < 1 / 2 \<or> \<bar>a * 10 ^ nd - of_int k\<bar> = 1 / 2 \<and> even k \<Longrightarrow>
   fl (of_int k / 10 ^ nd) = Fin r \<Longrightarrow> round_py (Fin a) nd = Fin r"
  using rhe_nearestI[of "a * 10 ^ nd" k] by simp

section \<open>The constants and the example computations, evaluated\<close>

text \<open>
  The emission factors as floats, and every float operation that the example inputs of
  the statements below go through, each with its rounding checked by the kernel.
\<close>

lemma factor_transport_km_car:
  "transport_km_car EMISSION_FACTORS = Fin (3458764513820541 / 18014398509481984)"
  unfolding EMISSION_FACTORS_def emission_factors.select_convs
  by (rule fl_eqI[where e = "- 3" and q = "- 55" and n = "6917529027641082"]) simp_all

lemma factor_transport_km_bus:
  "transport_km_bus EMISSION_FACTORS = Fin (3206562934687793 / 36028797018963968)"
  unfolding EMISSION_FACTORS_def emission_factors.select_convs
  by (rule fl_eqI[where e = "- 4" and q = "- 56" and n = "6413125869375586"]) simp_all

lemma factor_transport_km_bike_walk:
  "transport_km_bike_walk EMISSION_FACTORS = Fin 0"
  by (simp add: EMISSION_FACTORS_def)

lemma factor_electricity_kwh_factor:
  "electricity_kwh_factor EMISSION_FACTORS = Fin (7385903388887613 / 9007199254740992)"
  unfolding EMISSION_FACTORS_def emission_factors.select_convs
  by (rule fl_eqI[where e = "- 1" and q = "- 53" and n = "7385903388887613"]) simp_all

lemma factor_meat_meal:
  "meat_meal EMISSION_FACTORS = Fin 5"
  unfolding EMISSION_FACTORS_def emission_factors.select_convs
  by (rule fl_eqI[where e = "2" and q = "- 50" and n = "5629499534213120"]) simp_all

lemma factor_veg_meal:
  "veg_meal EMISSION_FACTORS = Fin 2"
  unfolding EMISSION_FACTORS_def emission_factors.select_convs
  by (rule fl_eqI[where e = "1" and q = "- 51" and n = "4503599627370496"]) simp_all

lemma factor_plastic_item:
  "plastic_item EMISSION_FACTORS = Fin (3602879701896397 / 36028797018963968)"
  unfolding EMISSION_FACTORS_def emission_factors.select_convs
  by (rule fl_eqI[where e = "- 4" and q = "- 56" and n = "7205759403792794"]) simp_all

lemma conv_1:
  "as_float (PyInt 0) = Inr (Fin 0)"
  by (rule as_floatI) simp

lemma mul_1:
  "mul_float (PyInt 0) (Fin (3458764513820541 / 18014398509481984)) = Inr (Fin 0)"
  by (rule mul_floatI, rule conv_1) simp

lemma add_1:
  "fadd (Fin 0) (Fin 0) = Fin 0"
  by (rule faddI) simp

lemma mul_2:
  "mul_float (PyInt 0) (Fin (3206562934687793 / 36028797018963968)) = Inr (Fin 0)"
  by (rule mul_floatI, rule conv_1) simp

lemma mul_3:
  "mul_float (PyInt 0) (Fin 0) = Inr (Fin 0)"
  by (rule mul_floatI, rule conv_1) simp

lemma mul_4:
  "mul_float (PyInt 0) (Fin (7385903388887613 / 9007199254740992)) = Inr (Fin 0)"
  by (rule mul_floatI, rule conv_1) simp

lemma mul_5:
  "mul_float (PyInt 0) (Fin 5) = Inr (Fin 0)"
  by (rule mul_floatI, rule conv_1) simp

lemma mul_6:
  "mul_float (PyInt 0) (Fin 2) = Inr (Fin 0)"
  by (rule mul_floatI, rule conv_1) simp

lemma mul_7:
  "mul_float (PyInt 0) (Fin (3602879701896397 / 36028797018963968)) = Inr (Fin 0)"
  by (rule mul_floatI, rule conv_1) simp

lemma sub_1:
  "fsub (Fin 0) (Fin 0) = Fin 0"
  by (rule fsubI) simp

lemma round_1:
  "round_py (Fin 0) 3 = Fin 0"
  by (rule round_pyI[where k = "0"]) simp_all

lemma conv_2:
  "as_float (PyInt 10) = Inr (Fin 10)"
  by (rule as_floatI, rule fl_eqI[where e = "3" and q = "- 49" and n = "5629499534213120"]) simp_all

lemma mul_8:
  "mul_float (PyInt 10) (Fin (3458764513820541 / 18014398509481984)) = Inr (Fin (1080863910568919 / 562949953421312))"
  by (rule mul_floatI, rule conv_2, rule fl_eqI[where e = "0" and q = "- 52" and n = "8646911284551352"]) simp_all

lemma add_2:
  "fadd (Fin 0) (Fin (1080863910568919 / 562949953421312)) = Fin (1080863910568919 / 562949953421312)"
  by (rule faddI, rule fl_eqI[where e = "0" and q = "- 52" and n = "8646911284551352"]) simp_all

lemma add_3:
  "fadd (Fin (1080863910568919 / 562949953421312)) (Fin 0) = Fin (1080863910568919 / 562949953421312)"
  by (rule faddI, rule fl_eqI[where e = "0" and q = "- 52" and n = "8646911284551352"]) simp_all

lemma conv_3:
  "as_float (PyInt 4) = Inr (Fin 4)"
  by (rule as_floatI, rule fl_eqI[where e = "2" and q = "- 50" and n = "4503599627370496"]) simp_all

lemma mul_9:
  "mul_float (PyInt 4) (Fin (7385903388887613 / 9007199254740992)) = Inr (Fin (7385903388887613 / 2251799813685248))"
  by (rule mul_floatI, rule conv_3, rule fl_eqI[where e = "1" and q = "- 51" and n = "7385903388887613"]) simp_all

lemma add_4:
  "fadd (Fin (1080863910568919 / 562949953421312)) (Fin (7385903388887613 / 2251799813685248)) = Fin (1463669878895411 / 281474976710656)"
  by (rule faddI, rule fl_eqI[where e = "2" and q = "- 50" and n = "5854679515581644"]) simp_all

lemma conv_4:
  "as_float (PyInt 1) = Inr (Fin 1)"
  by (rule as_floatI, rule fl_eqI[where e = "0" and q = "- 52" and n = "4503599627370496"]) simp_all

lemma mul_10:
  "mul_float (PyInt 1) (Fin 5) = Inr (Fin 5)"
  by (rule mul_floatI, rule conv_4, rule fl_eqI[where e = "2" and q = "- 50" and n = "5629499534213120"]) simp_all

lemma add_5:
  "fadd (Fin (1463669878895411 / 281474976710656)) (Fin 5) = Fin (2871044762448691 / 281474976710656)"
  by (rule faddI, rule fl_eqI[where e = "3" and q = "- 49" and n = "5742089524897382"]) simp_all

lemma add_6:
  "fadd (Fin (2871044762448691 / 281474976710656)) (Fin 0) = Fin (2871044762448691 / 281474976710656)"
  by (rule faddI, rule fl_eqI[where e = "3" and q = "- 49" and n = "5742089524897382"]) simp_all

lemma conv_5:
  "as_float (PyInt 2) = Inr (Fin 2)"
  by (rule as_floatI, rule fl_eqI[where e = "1" and q = "- 51" and n = "4503599627370496"]) simp_all

lemma mul_11:
  "mul_float (PyInt 2) (Fin (3602879701896397 / 36028797018963968)) = Inr (Fin (3602879701896397 / 18014398509481984))"
  by (rule mul_floatI, rule conv_5, rule fl_eqI[where e = "- 3" and q = "- 55" and n = "7205759403792794"]) simp_all

lemma sub_2:
  "fsub (Fin (2871044762448691 / 281474976710656)) (Fin (3602879701896397 / 18014398509481984)) = Fin 10"
  by (rule fsubI, rule fl_eqI[where e = "3" and q = "- 49" and n = "5629499534213120"]) simp_all

lemma round_2:
  "round_py (Fin 10) 3 = Fin 10"
  by (rule round_pyI[where k = "10000", OF _ fl_eqI[where e = "3" and q = "- 49" and n = "5629499534213120"]]) simp_all

lemma mul_12:
  "mul_float (PyInt 1) (Fin (3602879701896397 / 36028797018963968)) = Inr (Fin (3602879701896397 / 36028797018963968))"
  by (rule mul_floatI, rule conv_4, rule fl_eqI[where e = "- 4" and q = "- 56" and n = "7205759403792794"]) simp_all

lemma sub_3:
  "fsub (Fin 0) (Fin (3602879701896397 / 36028797018963968)) = Fin (- (3602879701896397 / 36028797018963968))"
  by (rule fsubI, rule fl_eqI[where e = "- 4" and q = "- 56" and n = "- 7205759403792794"]) simp_all

lemma round_3:
  "round_py (Fin (- (3602879701896397 / 36028797018963968))) 3 = Fin (- (3602879701896397 / 36028797018963968))"
  by (rule round_pyI[where k = "- 100", OF _ fl_eqI[where e = "- 4" and q = "- 56" and n = "- 7205759403792794"]]) simp_all

lemma mulf_1:
  "mul_float (PyFloat (Fin 10)) (Fin (3458764513820541 / 18014398509481984)) = Inr (Fin (1080863910568919 / 562949953421312))"
  by (rule mul_floatI[OF as_float.simps(1) fl_eqI[where e = "0" and q = "- 52" and n = "8646911284551352"]]) simp_all

lemma mulf_2:
  "mul_float (PyFloat (Fin 0)) (Fin (3206562934687793 / 36028797018963968)) = Inr (Fin 0)"
  by (rule mul_floatI[OF as_float.simps(1)]) simp

lemma mulf_3:
  "mul_float (PyFloat (Fin 0)) (Fin 0) = Inr (Fin 0)"
  by (rule mul_floatI[OF as_float.simps(1)]) simp

lemma mulf_4:
  "mul_float (PyFloat (Fin 4)) (Fin (7385903388887613 / 9007199254740992)) = Inr (Fin (7385903388887613 / 2251799813685248))"
  by (rule mul_floatI[OF as_float.simps(1) fl_eqI[where e = "1" and q = "- 51" and n = "7385903388887613"]]) simp_all

lemma add_7:
  "fadd (Fin (2871044762448691 / 281474976710656)) (Fin (3602879701896397 / 18014398509481984)) = Fin (1463669878895411 / 140737488355328)"
  by (rule faddI, rule fl_eqI[where e = "3" and q = "- 49" and n = "5854679515581644"]) simp_all

lemma round_4:
  "round_py (Fin (1463669878895411 / 140737488355328)) 3 = Fin (5854679515581645 / 562949953421312)"
  by (rule round_pyI[where k = "10400", OF _ fl_eqI[where e = "3" and q = "- 49" and n = "5854679515581645"]]) simp_all

lemma sub_4:
  "fsub (Fin (5854679515581645 / 562949953421312)) (Fin (- (3602879701896397 / 36028797018963968))) = Fin (21 / 2)"
  by (rule fsubI, rule fl_eqI[where e = "3" and q = "- 49" and n = "5910974510923776"]) simp_all

lemma max_1:
  "max_py (Fin 0) (Fin (21 / 2)) = Fin (21 / 2)"
  by (simp add: max_py_def fgt_def)

lemma round_5:
  "round_py (Fin (21 / 2)) 3 = Fin (21 / 2)"
  by (rule round_pyI[where k = "10500", OF _ fl_eqI[where e = "3" and q = "- 49" and n = "5910974510923776"]]) simp_all

lemma div_1:
  "fdiv (Fin (21 / 2)) (Fin (5854679515581645 / 562949953421312)) = Inr (Fin (2273451734970683 / 2251799813685248))"
  by (rule fdivI[OF _ fl_eqI[where e = "0" and q = "- 52" and n = "4546903469941366"]]) simp_all

lemma conv_6:
  "as_float (PyInt 100) = Inr (Fin 100)"
  by (rule as_floatI, rule fl_eqI[where e = "6" and q = "- 46" and n = "7036874417766400"]) simp_all

lemma mulr_1:
  "float_mul (Fin (2273451734970683 / 2251799813685248)) (PyInt 100) = Inr (Fin (888067083972923 / 8796093022208))"
  by (rule float_mulI, rule conv_6, rule fl_eqI[where e = "6" and q = "- 46" and n = "7104536671783384"]) simp_all

lemma round_6:
  "round_py (Fin (888067083972923 / 8796093022208)) 2 = Fin (7104428412176957 / 70368744177664)"
  by (rule round_pyI[where k = "10096", OF _ fl_eqI[where e = "6" and q = "- 46" and n = "7104428412176957"]]) simp_all

lemma sub_5:
  "fsub (Fin (5854679515581645 / 562949953421312)) (Fin 0) = Fin (5854679515581645 / 562949953421312)"
  by (rule fsubI, rule fl_eqI[where e = "3" and q = "- 49" and n = "5854679515581645"]) simp_all

lemma max_2:
  "max_py (Fin 0) (Fin (5854679515581645 / 562949953421312)) = Fin (5854679515581645 / 562949953421312)"
  by (simp add: max_py_def fgt_def)

lemma round_7:
  "round_py (Fin (5854679515581645 / 562949953421312)) 3 = Fin (5854679515581645 / 562949953421312)"
  by (rule round_pyI[where k = "10400", OF _ fl_eqI[where e = "3" and q = "- 49" and n = "5854679515581645"]]) simp_all

lemma div_2:
  "fdiv (Fin (5854679515581645 / 562949953421312)) (Fin (5854679515581645 / 562949953421312)) = Inr (Fin 1)"
  by (rule fdivI[OF _ fl_eqI[where e = "0" and q = "- 52" and n = "4503599627370496"]]) simp_all

lemma mulr_2:
  "float_mul (Fin 1) (PyInt 100) = Inr (Fin 100)"
  by (rule float_mulI, rule conv_6, rule fl_eqI[where e = "6" and q = "- 46" and n = "7036874417766400"]) simp_all

lemma round_8:
  "round_py (Fin 100) 2 = Fin 100"
  by (rule round_pyI[where k = "10000", OF _ fl_eqI[where e = "6" and q = "- 46" and n = "7036874417766400"]]) simp_all

lemma sub_6:
  "fsub (Fin (5854679515581645 / 562949953421312)) (Fin 10) = Fin (225179981368525 / 562949953421312)"
  by (rule fsubI, rule fl_eqI[where e = "- 2" and q = "- 54" and n = "7205759403792800"]) simp_all

lemma max_3:
  "max_py (Fin 0) (Fin (225179981368525 / 562949953421312)) = Fin (225179981368525 / 562949953421312)"
  by (simp add: max_py_def fgt_def)

lemma round_9:
  "round_py (Fin (225179981368525 / 562949953421312)) 3 = Fin (3602879701896397 / 9007199254740992)"
  by (rule round_pyI[where k = "400", OF _ fl_eqI[where e = "- 2" and q = "- 54" and n = "7205759403792794"]]) simp_all

lemma div_3:
  "fdiv (Fin (3602879701896397 / 9007199254740992)) (Fin (5854679515581645 / 562949953421312)) = Inr (Fin (1385722962267845 / 36028797018963968))"
  by (rule fdivI[OF _ fl_eqI[where e = "- 5" and q = "- 57" and n = "5542891849071380"]]) simp_all

lemma mulr_3:
  "float_mul (Fin (1385722962267845 / 36028797018963968)) (PyInt 100) = Inr (Fin (8660768514174031 / 2251799813685248))"
  by (rule float_mulI, rule conv_6, rule fl_eqI[where e = "1" and q = "- 51" and n = "8660768514174031"]) simp_all

lemma round_10:
  "round_py (Fin (8660768514174031 / 2251799813685248)) 2 = Fin (8669429282688205 / 2251799813685248)"
  by (rule round_pyI[where k = "385", OF _ fl_eqI[where e = "1" and q = "- 51" and n = "8669429282688205"]]) simp_all

lemma mulf_5:
  "mul_float (PyFloat (Fin (3 / 2))) (Fin (3206562934687793 / 36028797018963968)) = Inr (Fin (2404922201015845 / 18014398509481984))"
  by (rule mul_floatI[OF as_float.simps(1) fl_eqI[where e = "- 3" and q = "- 55" and n = "4809844402031690"]]) simp_all

lemma add_8:
  "fadd (Fin 0) (Fin (2404922201015845 / 18014398509481984)) = Fin (2404922201015845 / 18014398509481984)"
  by (rule faddI, rule fl_eqI[where e = "- 3" and q = "- 55" and n = "4809844402031690"]) simp_all

lemma add_9:
  "fadd (Fin (2404922201015845 / 18014398509481984)) (Fin 0) = Fin (2404922201015845 / 18014398509481984)"
  by (rule faddI, rule fl_eqI[where e = "- 3" and q = "- 55" and n = "4809844402031690"]) simp_all

lemma add_10:
  "fadd (Fin (2404922201015845 / 18014398509481984)) (Fin 5) = Fin (2889903585888305 / 562949953421312)"
  by (rule faddI, rule fl_eqI[where e = "2" and q = "- 50" and n = "5779807171776610"]) simp_all

lemma add_11:
  "fadd (Fin (2889903585888305 / 562949953421312)) (Fin 0) = Fin (2889903585888305 / 562949953421312)"
  by (rule faddI, rule fl_eqI[where e = "2" and q = "- 50" and n = "5779807171776610"]) simp_all

lemma sub_7:
  "fsub (Fin (2889903585888305 / 562949953421312)) (Fin 0) = Fin (2889903585888305 / 562949953421312)"
  by (rule fsubI, rule fl_eqI[where e = "2" and q = "- 50" and n = "5779807171776610"]) simp_all

lemma round_11:
  "round_py (Fin (2889903585888305 / 562949953421312)) 3 = Fin (5779244221823189 / 1125899906842624)"
  by (rule round_pyI[where k = "5133", OF _ fl_eqI[where e = "2" and q = "- 50" and n = "5779244221823189"]]) simp_all

lemma mulf_6:
  "mul_float (PyFloat (Fin (6755399441055745 / 4503599627370496))) (Fin (3206562934687793 / 36028797018963968)) = Inr (Fin (2404922201015845 / 18014398509481984))"
  by (rule mul_floatI[OF as_float.simps(1) fl_eqI[where e = "- 3" and q = "- 55" and n = "4809844402031690"]]) simp_all

lemma baseline_positive:
  "fgt (Fin (5854679515581645 / 562949953421312)) (Fin 0) = True"
  by (simp add: fgt_def)

lemma calculate_co2_zero:
  "calculate_co2 (PyInt 0) (PyInt 0) (PyInt 0) (PyInt 0) (PyInt 0) (PyInt 0) (PyInt 0) = Inr (Fin 0)"
  unfolding calculate_co2_def Let_def
  by (simp only: factor_transport_km_car factor_transport_km_bus factor_transport_km_bike_walk factor_electricity_kwh_factor factor_meat_meal factor_veg_meal factor_plastic_item
      mul_1 add_1 mul_2 mul_3 mul_4 mul_5 mul_6 mul_7 sub_1 round_1 ebind_Inr)

lemma calculate_co2_example:
  "calculate_co2 (PyInt 10) (PyInt 0) (PyInt 0) (PyInt 4) (PyInt 1) (PyInt 0) (PyInt 2) = Inr (Fin 10)"
  unfolding calculate_co2_def Let_def
  by (simp only: factor_transport_km_car factor_transport_km_bus factor_transport_km_bike_walk factor_electricity_kwh_factor factor_meat_meal factor_veg_meal factor_plastic_item
      mul_8 add_2 mul_2 add_3 mul_3 mul_9 add_4 mul_10 add_5 mul_6 add_6 mul_11 sub_2 round_2 ebind_Inr)

lemma calculate_co2_plastic:
  "calculate_co2 (PyInt 0) (PyInt 0) (PyInt 0) (PyInt 0) (PyInt 0) (PyInt 0) (PyInt 1) = Inr (Fin (- (3602879701896397 / 36028797018963968)))"
  unfolding calculate_co2_def Let_def
  by (simp only: factor_transport_km_car factor_transport_km_bus factor_transport_km_bike_walk factor_electricity_kwh_factor factor_meat_meal factor_veg_meal factor_plastic_item
      mul_1 add_1 mul_2 mul_3 mul_4 mul_5 mul_6 mul_12 sub_3 round_3 ebind_Inr)

lemma calculate_co2_widgets:
  "calculate_co2 (PyFloat (Fin 10)) (PyFloat (Fin 0)) (PyFloat (Fin 0)) (PyFloat (Fin 4)) (PyInt 1) (PyInt 0) (PyInt 2) = Inr (Fin 10)"
  unfolding calculate_co2_def Let_def
  by (simp only: factor_transport_km_car factor_transport_km_bus factor_transport_km_bike_walk factor_electricity_kwh_factor factor_meat_meal factor_veg_meal factor_plastic_item
      mulf_1 add_2 mulf_2 add_3 mulf_3 mulf_4 add_4 mul_10 add_5 mul_6 add_6 mul_11 sub_2 round_2 ebind_Inr)

lemma baseline_value:
  "baseline_daily_co2 = Inr (Fin (5854679515581645 / 562949953421312))"
  unfolding baseline_daily_co2_def Let_def BASELINE_def baseline_assumptions.select_convs
  by (simp only: factor_transport_km_car factor_transport_km_bus factor_transport_km_bike_walk factor_electricity_kwh_factor factor_meat_meal factor_veg_meal factor_plastic_item
      mul_8 add_2 mul_9 add_4 mul_10 add_5 mul_11 add_7 round_4 ebind_Inr)

lemma savings_plastic:
  "savings (Fin (5854679515581645 / 562949953421312)) (Fin (- (3602879701896397 / 36028797018963968))) = Inr (Fin (21 / 2), PyFloat (Fin (7104428412176957 / 70368744177664)))"
  unfolding savings_def Let_def
  by (simp only: sub_4 max_1 round_5 div_1 mulr_1 round_6
      baseline_positive if_True ebind_Inr round_num.simps)

lemma savings_zero:
  "savings (Fin (5854679515581645 / 562949953421312)) (Fin 0) = Inr (Fin (5854679515581645 / 562949953421312), PyFloat (Fin 100))"
  unfolding savings_def Let_def
  by (simp only: sub_5 max_2 round_7 div_2 mulr_2 round_8
      baseline_positive if_True ebind_Inr round_num.simps)

lemma savings_example:
  "savings (Fin (5854679515581645 / 562949953421312)) (Fin 10) = Inr (Fin (3602879701896397 / 9007199254740992), PyFloat (Fin (8669429282688205 / 2251799813685248)))"
  unfolding savings_def Let_def
  by (simp only: sub_6 max_3 round_9 div_3 mulr_3 round_10
      baseline_positive if_True ebind_Inr round_num.simps)

lemma calculate_co2_tie:
  "calculate_co2 (PyInt 0) (PyFloat (Fin (3 / 2))) (PyInt 0) (PyInt 0) (PyInt 1) (PyInt 0) (PyInt 0) = Inr (Fin (5779244221823189 / 1125899906842624))"
  unfolding calculate_co2_def Let_def
  by (simp only: factor_transport_km_car factor_transport_km_bus factor_transport_km_bike_walk factor_electricity_kwh_factor factor_meat_meal factor_veg_meal factor_plastic_item
      mul_1 add_1 mulf_5 add_8 mul_3 add_9 mul_4 mul_10 add_10 mul_6 add_11 mul_7 sub_7 round_11 ebind_Inr)

lemma calculate_co2_above_tie:
  "calculate_co2 (PyInt 0) (PyFloat (Fin (6755399441055745 / 4503599627370496))) (PyInt 0) (PyInt 0) (PyInt 1) (PyInt 0) (PyInt 0) = Inr (Fin (5779244221823189 / 1125899906842624))"
  unfolding calculate_co2_def Let_def
  by (simp only: factor_transport_km_car factor_transport_km_bus factor_transport_km_bike_walk factor_electricity_kwh_factor factor_meat_meal factor_veg_meal factor_plastic_item
      mul_1 add_1 mulf_6 add_8 mul_3 add_9 mul_4 mul_10 add_10 mul_6 add_11 mul_7 sub_7 round_11 ebind_Inr)

lemma baseline_representable:
  "fl (5854679515581645 / 562949953421312) = Fin (5854679515581645 / 562949953421312)"
  by (rule fl_eqI[where e = "3" and q = "- 49" and n = "5854679515581645"]) simp_all

lemma round_baseline:
  "round_py (Fin (5854679515581645 / 562949953421312)) 3 = Fin (5854679515581645 / 562949953421312)"
  by (rule round_7)

lemma round_hundred:
  "round_py (Fin 100) 2 = Fin 100"
  by (rule round_8)

lemma float_hundred:
  "as_float (PyInt 100) = Inr (Fin 100)"
  by (rule conv_6)


section \<open>The log store: fetching and inserting\<close>

lemma insert_log_Inr_iff:
  "insert_log cs conn d = Inr t \<longleftrightarrow>
     ints_fit d \<and> (\<exists>i. next_rowid cs conn = Inr i \<and> t = conn @ [stored i d])"
  by (auto simp: insert_log_def ints_fit_def ebind_Inr_iff)

lemma row_entry_stored: "no_nan d \<Longrightarrow> row_entry (stored i d) = Some d"
  by (simp add: row_entry_def stored_def sql_real_def no_nan_def)

lemma insert_all_rows:
  "insert_all css conn ds = Inr t \<Longrightarrow>
   \<exists>rows. t = conn @ rows \<and> map col_user rows = map user ds
     \<and> (list_all no_nan ds \<longrightarrow> map row_entry rows = map Some ds)"
proof (induction ds arbitrary: conn css)
  case Nil
  then show ?case by simp
next
  case (Cons d ds)
  from Cons.prems obtain c cs where c: "insert_log cs conn d = Inr c"
    and r: "insert_all (tl css) c ds = Inr t"
    by (auto simp: ebind_Inr_iff)
  from c obtain i where c': "c = conn @ [stored i d]" by (auto simp: insert_log_Inr_iff)
  from Cons.IH[OF r] obtain rows where rows: "t = c @ rows" "map col_user rows = map user ds"
    "list_all no_nan ds \<longrightarrow> map row_entry rows = map Some ds" by blast
  have "t = conn @ (stored i d # rows)" using rows(1) c' by simp
  moreover have "map col_user (stored i d # rows) = map user (d # ds)"
    using rows(2) by (simp add: stored_def)
  moreover have "list_all no_nan (d # ds) \<longrightarrow>
      map row_entry (stored i d # rows) = map Some (d # ds)"
    using rows(3) by (simp add: row_entry_stored)
  ultimately show ?case by blast
qed

text \<open>
  Claim C10. Called with the empty string as user label, \<open>fetch_logs\<close> does what it does
  without a label: it returns every row of the table, of every user, ordered by date.
  This holds for every table, so also for one that has rows whose user is the empty
  string.
\<close>

theorem fetch_logs_empty_label:
  "fetch_logs conn (Some '''') = fetch_logs conn None
   \<and> mset (fetch_logs conn (Some '''')) = mset conn
   \<and> sorted (map col_date (fetch_logs conn (Some '''')))"
  by (simp add: fetch_logs_def)

text \<open>
  Claim C9, amended. For every non-empty user label \<open>u\<close> and every table without a row
  of user \<open>u\<close>, \<open>fetch_logs\<close> returns the empty list of rows. (\<open>fetch_logs\<close> is a total
  function: there is no error to raise.)
\<close>

theorem fetch_logs_unknown_user:
  assumes "u \<noteq> ''''" and "\<forall>r \<in> set conn. col_user r \<noteq> u"
  shows "fetch_logs conn (Some u) = []"
proof -
  have "filter (\<lambda>r. col_user r = u) conn = []" using assms(2) by (simp add: filter_empty_conv)
  then show ?thesis using assms(1) by (simp add: fetch_logs_def)
qed

theorem fetch_logs_unknown_user_witness:
  "''alice'' \<noteq> '''' \<and> map col_user bob_table = [''bob'']
   \<and> fetch_logs bob_table (Some ''alice'') = []"
proof -
  have h1: "''alice'' \<noteq> ''''" by simp
  have h2: "\<forall>r \<in> set bob_table. col_user r \<noteq> ''alice''"
    by (simp add: bob_table_def stored_def bob_entry_def)
  have h3: "map col_user bob_table = [''bob'']"
    by (simp add: bob_table_def stored_def bob_entry_def)
  from fetch_logs_unknown_user[OF h1 h2] h1 h3 show ?thesis by blast
qed

text \<open>
  Claim C9 as stated fails for the empty label: the table holds one row, of user
  \<open>bob\<close>, none of user \<open>''''\<close>, and fetching for \<open>''''\<close> returns that row.
\<close>

theorem fetch_logs_unknown_user_counterexample:
  "map col_user bob_table = [''bob''] \<and> fetch_logs bob_table (Some '''') = bob_table"
  by (simp add: fetch_logs_def bob_table_def stored_def bob_entry_def)

text \<open>
  Claim C3, amended. Let \<open>u\<close> be a non-empty user label, let the table hold no row of
  user \<open>u\<close>, and let \<open>ds\<close> be entries of user \<open>u\<close> whose float fields are numbers. If
  inserting them one after the other succeeds, then fetching for \<open>u\<close> returns as many rows
  as entries were inserted, the rows give back exactly the inserted entries, field by
  field (as a multiset: the order is by date), and the rows are ordered by date ascending.
\<close>

theorem insert_then_fetch:
  assumes "u \<noteq> ''''"
    and "\<forall>r \<in> set conn. col_user r \<noteq> u"
    and "\<forall>d \<in> set ds. user d = u \<and> no_nan d"
    and "insert_all css conn ds = Inr t"
  shows "length (fetch_logs t (Some u)) = length ds
         \<and> mset (map row_entry (fetch_logs t (Some u))) = mset (map Some ds)
         \<and> sorted (map col_date (fetch_logs t (Some u)))"
proof -
  have nn: "list_all no_nan ds" using assms(3) by (simp add: list_all_iff)
  from insert_all_rows[OF assms(4)] nn obtain rows where
    t: "t = conn @ rows" and us: "map col_user rows = map user ds"
    and en: "map row_entry rows = map Some ds" by blast
  have "\<forall>r \<in> set rows. col_user r = u"
  proof
    fix r assume "r \<in> set rows"
    then have "col_user r \<in> set (map col_user rows)" by simp
    then have "col_user r \<in> set (map user ds)" by (simp only: us)
    then show "col_user r = u" using assms(3) by auto
  qed
  then have f2: "filter (\<lambda>r. col_user r = u) rows = rows" by (simp add: filter_id_conv)
  have f1: "filter (\<lambda>r. col_user r = u) conn = []" using assms(2) by (simp add: filter_empty_conv)
  have fe: "fetch_logs t (Some u) = sort_key col_date rows"
    using assms(1) by (simp add: fetch_logs_def t f1 f2)
  have "length (fetch_logs t (Some u)) = length ds"
    unfolding fe using arg_cong[OF us, of length] by simp
  moreover have "mset (map row_entry (fetch_logs t (Some u))) = mset (map Some ds)"
    unfolding fe using arg_cong[OF en, of mset] by simp
  moreover have "sorted (map col_date (fetch_logs t (Some u)))"
    unfolding fe by simp
  ultimately show ?thesis by blast
qed

theorem insert_then_fetch_witness:
  "''alice'' \<noteq> ''''
   \<and> map col_user bob_table = [''bob'']
   \<and> map user alice_entries = [''alice'', ''alice'']
   \<and> list_all no_nan alice_entries
   \<and> insert_all [] bob_table alice_entries = Inr alice_table
   \<and> length (fetch_logs alice_table (Some ''alice'')) = length alice_entries
   \<and> mset (map row_entry (fetch_logs alice_table (Some ''alice''))) = mset (map Some alice_entries)
   \<and> sorted (map col_date (fetch_logs alice_table (Some ''alice'')))"
proof -
  have h1: "''alice'' \<noteq> ''''" by simp
  have h2: "\<forall>r \<in> set bob_table. col_user r \<noteq> ''alice''"
    by (simp add: bob_table_def stored_def bob_entry_def)
  have h3: "\<forall>d \<in> set alice_entries. user d = ''alice'' \<and> no_nan d"
    by (simp add: alice_entries_def bob_entry_def no_nan_def)
  have h4: "insert_all [] bob_table alice_entries = Inr alice_table"
    by (simp add: alice_entries_def alice_table_def bob_table_def insert_log_def
        fits_int64_def next_rowid_def bob_entry_def stored_def)
  have h5: "map col_user bob_table = [''bob'']"
    by (simp add: bob_table_def stored_def bob_entry_def)
  have h6: "map user alice_entries = [''alice'', ''alice'']"
    by (simp add: alice_entries_def bob_entry_def)
  have h7: "list_all no_nan alice_entries"
    by (simp add: alice_entries_def bob_entry_def no_nan_def)
  from insert_then_fetch[OF h1 h2 h3 h4] h1 h4 h5 h6 h7 show ?thesis by blast
qed

text \<open>
  Claim C3 as stated fails for the empty label: one entry of user \<open>''''\<close> is inserted
  into a table that holds a row of user \<open>bob\<close>, and fetching for \<open>''''\<close> returns two rows,
  bob's among them.
\<close>

theorem insert_then_fetch_counterexample:
  "map col_user bob_table = [''bob'']
   \<and> user anon_entry = ''''
   \<and> insert_all [] bob_table [anon_entry] = Inr anon_table
   \<and> map col_user (fetch_logs anon_table (Some '''')) = ['''', ''bob'']"
  by (simp add: anon_table_def bob_table_def anon_entry_def bob_entry_def insert_log_def
      fits_int64_def next_rowid_def stored_def fetch_logs_def)

lemma next_rowid_fresh: "next_rowid cs conn = Inr i \<Longrightarrow> i \<notin> col_id ` set conn"
proof (cases "conn = [] \<or> Max (col_id ` set conn) < 2 ^ 63 - 1")
  case True
  assume n: "next_rowid cs conn = Inr i"
  show ?thesis
  proof
    assume a: "i \<in> col_id ` set conn"
    then have ne: "conn \<noteq> []" by auto
    with True n have i: "i = Max (col_id ` set conn) + 1" by (simp add: next_rowid_def)
    have "i \<le> Max (col_id ` set conn)" using a by (intro Max_ge) simp_all
    with i show False by simp
  qed
next
  case False
  assume "next_rowid cs conn = Inr i"
  with False have "find (\<lambda>v. v \<notin> col_id ` set conn) cs = Some i"
    by (auto simp: next_rowid_def split: option.splits)
  then show ?thesis by (auto simp: find_Some_iff)
qed

lemma next_rowid_error:
  "next_rowid cs conn = Inl e \<Longrightarrow>
   e = OperationalError \<and> conn \<noteq> [] \<and> \<not> Max (col_id ` set conn) < 2 ^ 63 - 1"
  by (auto simp: next_rowid_def split: if_splits option.splits)

lemma next_rowid_usual:
  "conn = [] \<or> Max (col_id ` set conn) < 2 ^ 63 - 1 \<Longrightarrow>
   next_rowid cs conn = Inr (if conn = [] then 1 else Max (col_id ` set conn) + 1)"
  by (auto simp: next_rowid_def)

text \<open>
  Claim C5, amended. Let the ints of the entry fit 64 bits. On an empty table, or
  one whose largest id is below \<open>2^63 - 1\<close>, \<open>insert_log\<close> appends exactly one row and
  assigns its id: 1, or one more than the largest id. On any table, \<open>insert_log\<close> either
  appends exactly one row, with an id that no row of the table has, or it raises
  \<^verbatim>\<open>OperationalError\<close> and appends nothing, which happens only when the largest id is
  \<open>2^63 - 1\<close> and none of the engine's random candidates is free. The row's \<open>created_at\<close>
  is not assigned by the insert: it is the \<open>created_at\<close> of the entry, which the caller
  supplies.
\<close>

theorem insert_log_row:
  assumes "ints_fit d"
  shows "(conn = [] \<or> Max (col_id ` set conn) < 2 ^ 63 - 1 \<longrightarrow>
            insert_log cs conn d
              = Inr (conn @ [stored (if conn = [] then 1 else Max (col_id ` set conn) + 1) d]))
         \<and> (case insert_log cs conn d of
               Inr t \<Rightarrow>
                 \<exists>i. t = conn @ [stored i d] \<and> col_id (stored i d) = i
                   \<and> i \<notin> col_id ` set conn
                   \<and> col_created_at (stored i d) = created_at d
             | Inl e \<Rightarrow>
                 e = OperationalError \<and> conn \<noteq> []
                   \<and> \<not> Max (col_id ` set conn) < 2 ^ 63 - 1)"
proof (intro conjI impI)
  assume "conn = [] \<or> Max (col_id ` set conn) < 2 ^ 63 - 1"
  from next_rowid_usual[OF this, of cs] assms
  show "insert_log cs conn d
          = Inr (conn @ [stored (if conn = [] then 1 else Max (col_id ` set conn) + 1) d])"
    by (simp add: insert_log_def ints_fit_def)
next
  show "case insert_log cs conn d of
          Inr t \<Rightarrow>
            \<exists>i. t = conn @ [stored i d] \<and> col_id (stored i d) = i
              \<and> i \<notin> col_id ` set conn
              \<and> col_created_at (stored i d) = created_at d
        | Inl e \<Rightarrow>
            e = OperationalError \<and> conn \<noteq> []
              \<and> \<not> Max (col_id ` set conn) < 2 ^ 63 - 1"
  proof (cases "next_rowid cs conn")
    case (Inl e)
    with assms next_rowid_error[OF Inl] show ?thesis
      by (simp add: insert_log_def ints_fit_def)
  next
    case (Inr i)
    with assms next_rowid_fresh[OF Inr] show ?thesis
      by (simp add: insert_log_def ints_fit_def stored_def)
  qed
qed

theorem insert_log_row_witness:
  "ints_fit bob_entry
   \<and> Max (col_id ` set bob_table) < 2 ^ 63 - 1
   \<and> insert_log [] bob_table bob_entry = Inr (bob_table @ [stored 2 bob_entry])
   \<and> 2 \<notin> col_id ` set bob_table
   \<and> col_created_at (stored 2 bob_entry) = ''2024-03-02T08:00:00''
   \<and> insert_log [2 ^ 63 - 1, 5] full_table bob_entry = Inr (full_table @ [stored 5 bob_entry])
   \<and> insert_log [2 ^ 63 - 1] full_table bob_entry = Inl OperationalError"
proof -
  have h: "ints_fit bob_entry" by (simp add: ints_fit_def fits_int64_def bob_entry_def)
  have m: "Max (col_id ` set bob_table) = 1" by (simp add: bob_table_def stored_def)
  have ne: "bob_table \<noteq> []" by (simp add: bob_table_def)
  have c: "created_at bob_entry = ''2024-03-02T08:00:00''" by (simp add: bob_entry_def)
  have f1: "insert_log [2 ^ 63 - 1, 5] full_table bob_entry = Inr (full_table @ [stored 5 bob_entry])"
    by (simp add: insert_log_def next_rowid_def full_table_def fits_int64_def bob_entry_def
        stored_def)
  have f2: "insert_log [2 ^ 63 - 1] full_table bob_entry = Inl OperationalError"
    by (simp add: insert_log_def next_rowid_def full_table_def fits_int64_def bob_entry_def
        stored_def)
  have fr: "2 \<notin> col_id ` set bob_table" by (simp add: bob_table_def stored_def)
  from insert_log_row[OF h, where conn = bob_table and cs = "[]"] h f1 f2 fr show ?thesis
    by (simp add: m ne c stored_def)
qed

text \<open>
  Claim C5 as stated fails: the stored \<open>created_at\<close> is the one in the caller's entry.
  Two entries that differ in \<open>created_at\<close> only, inserted into the same empty table, give
  rows with the two different \<open>created_at\<close> texts.
\<close>

theorem insert_log_row_counterexample:
  "insert_log [] [] bob_entry = Inr [stored 1 bob_entry]
   \<and> col_created_at (stored 1 bob_entry) = ''2024-03-02T08:00:00''
   \<and> insert_log [] [] backdated_entry = Inr [stored 1 backdated_entry]
   \<and> col_created_at (stored 1 backdated_entry) = ''1999-01-01T00:00:00''"
  by (simp add: insert_log_def fits_int64_def next_rowid_def bob_entry_def
      backdated_entry_def stored_def)

lemma table_after_prefix: "prefix t (table_after t c)"
  by (cases c) (auto simp: init_db_def insert_log_Inr_iff split: sum.splits)

lemma foldl_table_after_prefix: "prefix t (foldl table_after t cs)"
proof (induction cs arbitrary: t)
  case Nil
  show ?case by simp
next
  case (Cons c cs)
  have "prefix t (table_after t c)" by (rule table_after_prefix)
  also have "prefix (table_after t c) (foldl table_after (table_after t c) cs)"
    by (rule Cons.IH)
  finally show ?case by simp
qed

text \<open>
  Claim C6. Whatever rowid the engine assigns, an insert that succeeds leaves the rows
  that were in the table as they were, in their places, and adds one row behind them.
  After any sequence of calls of
  \<open>init_db\<close>, \<open>insert_log\<close> and \<open>fetch_logs\<close>, the table begins with the rows it had before:
  no call changes or removes a row.
\<close>

theorem logs_append_only:
  "(case insert_log cs t d of
      Inr t' \<Rightarrow> take (length t) t' = t \<and> length t' = Suc (length t)
    | Inl err \<Rightarrow> True)
   \<and> prefix t (foldl table_after t calls)"
  by (auto simp: foldl_table_after_prefix insert_log_Inr_iff split: sum.splits)

theorem logs_append_only_witness:
  "insert_log [] bob_table anon_entry = Inr anon_table
   \<and> take (length bob_table) anon_table = bob_table
   \<and> length anon_table = Suc (length bob_table)
   \<and> prefix bob_table
       (foldl table_after bob_table [Init_db, Insert_log [] anon_entry, Fetch_logs None])"
proof -
  have i: "insert_log [] bob_table anon_entry = Inr anon_table"
    by (simp add: anon_table_def bob_table_def anon_entry_def bob_entry_def insert_log_def
        fits_int64_def next_rowid_def stored_def)
  from logs_append_only[where cs = "[]" and t = bob_table and d = anon_entry
      and calls = "[Init_db, Insert_log [] anon_entry, Fetch_logs None]"]
  show ?thesis unfolding i by (simp add: i)
qed

section \<open>The calculator and the savings percentage\<close>

lemma bounded_by_nonneg_ext: "bounded_by B x \<Longrightarrow> nonneg_ext x"
  by (cases x) simp_all

lemma fl_fl_val: "fl (fl_val y) = fl y"
  by (simp add: fl_def fl_val_idem)

lemma fl_not_NaN [simp]: "fl x \<noteq> NaN"
  by (simp add: fl_def Let_def)

lemma fl_nonneg_ext: "0 \<le> x \<Longrightarrow> nonneg_ext (fl x)"
  using fl_val_nonneg[of x] by (auto simp: fl_def Let_def)

lemma fl_bounded:
  assumes "0 \<le> x" "x \<le> y" "fl y = Fin B"
  shows "bounded_by B (fl x)"
proof -
  from assms(3) have B: "fl_val y = B" "\<bar>B\<bar> < 2 ^ 1024" by (auto simp: fl_Fin_iff)
  have lo: "0 \<le> fl_val x" using assms(1) by (rule fl_val_nonneg)
  have hi: "fl_val x \<le> B"
  proof (cases "x = 0")
    case True
    then show ?thesis using fl_val_nonneg[of y] assms(1,2) B(1) by simp
  next
    case False
    then have "0 < x" using assms(1) by simp
    then show ?thesis using fl_val_mono[of x y] assms(2) B(1) by simp
  qed
  from lo hi B(2) have "\<bar>fl_val x\<bar> < 2 ^ 1024" by simp
  then have "fl x = Fin (fl_val x)" by (simp add: fl_Fin_iff)
  then show ?thesis using lo hi by simp
qed

lemma round_py_nonneg_ext: "nonneg_ext x \<Longrightarrow> nonneg_ext (round_py x nd)"
proof (cases x)
  case (Fin a)
  assume "nonneg_ext x"
  with Fin have "0 \<le> a" by simp
  then have "0 \<le> a * 10 ^ nd" by simp
  then have "0 \<le> round_half_even (a * 10 ^ nd)" by (rule rhe_nonneg)
  then have "(0::rat) \<le> of_int (round_half_even (a * 10 ^ nd)) / 10 ^ nd" by simp
  then show ?thesis using Fin by (simp add: fl_nonneg_ext)
qed simp_all

lemma round_py_bounded:
  assumes "bounded_by B x" and "round_py (Fin B) nd = Fin B"
  shows "bounded_by B (round_py x nd)"
proof -
  from assms(1) obtain a where x: "x = Fin a" and a: "0 \<le> a" "a \<le> B"
    by (cases x) simp_all
  have "0 \<le> a * 10 ^ nd" using a(1) by simp
  then have "0 \<le> round_half_even (a * 10 ^ nd)" by (rule rhe_nonneg)
  then have lo: "(0::rat) \<le> of_int (round_half_even (a * 10 ^ nd)) / 10 ^ nd" by simp
  have "a * 10 ^ nd \<le> B * 10 ^ nd" using a(2) by simp
  then have "round_half_even (a * 10 ^ nd) \<le> round_half_even (B * 10 ^ nd)" by (rule rhe_mono)
  then have "(of_int (round_half_even (a * 10 ^ nd)) :: rat) \<le> of_int (round_half_even (B * 10 ^ nd))"
    by simp
  then have hi: "(of_int (round_half_even (a * 10 ^ nd)) :: rat) / 10 ^ nd
                   \<le> of_int (round_half_even (B * 10 ^ nd)) / 10 ^ nd"
    by (simp add: divide_right_mono)
  from assms(2) have "fl (of_int (round_half_even (B * 10 ^ nd)) / 10 ^ nd) = Fin B" by simp
  from fl_bounded[OF lo hi this] show ?thesis by (simp add: x)
qed

lemma max_py_nonneg_ext: "nonneg_ext (max_py (Fin 0) d)"
  by (cases d) (simp_all add: max_py_def fgt_def)

lemma sub_max_bounded:
  assumes "fle (Fin 0) co2" and "fl B = Fin B" and "0 \<le> B"
  shows "bounded_by B (max_py (Fin 0) (fsub (Fin B) co2))"
proof (cases co2)
  case (Fin c)
  with assms(1) have c: "0 \<le> c" by simp
  from assms(2) have B: "fl_val B = B" "\<bar>B\<bar> < 2 ^ 1024" by (auto simp: fl_Fin_iff)
  have hi: "fl_val (B - c) \<le> B"
  proof (cases "0 < B - c")
    case True
    then show ?thesis using fl_val_mono[of "B - c" B] c B(1) by simp
  next
    case False
    then have "fl_val (B - c) \<le> 0" by (intro fl_val_nonpos) simp
    then show ?thesis using assms(3) by simp
  qed
  have sub: "fsub (Fin B) co2 = fl (B - c)" by (simp add: fsub_def Fin)
  from fl_cases[of "B - c"] show ?thesis
  proof (elim disjE conjE)
    assume "fl (B - c) = Fin (fl_val (B - c))"
    then show ?thesis using hi assms(3) by (simp add: sub max_py_def fgt_def)
  next
    assume "2 ^ 1024 \<le> fl_val (B - c)"
    then show ?thesis using hi B(2) by simp
  next
    assume "fl (B - c) = NInf"
    then show ?thesis using assms(3) by (simp add: sub max_py_def fgt_def)
  qed
next
  case PInf
  then show ?thesis using assms(3) by (simp add: fsub_def max_py_def fgt_def)
next
  case NInf
  then show ?thesis using assms(1) by simp
next
  case NaN
  then show ?thesis using assms(1) by simp
qed

lemma fdiv_nonneg_ext:
  assumes "nonneg_ext s" and "0 < B"
  shows "\<exists>q. fdiv s (Fin B) = Inr q \<and> nonneg_ext q"
proof (cases s)
  case (Fin a)
  with assms have "0 \<le> a / B" by simp
  then have "nonneg_ext (fl (a / B))" by (rule fl_nonneg_ext)
  then show ?thesis using Fin assms(2) by simp
next
  case PInf
  then show ?thesis using assms(2) by (simp add: inf_of_sign_def)
qed (use assms in simp_all)

lemma fdiv_bounded:
  assumes "bounded_by B s" and "0 < B" and "fl 1 = Fin 1"
  shows "\<exists>q. fdiv s (Fin B) = Inr q \<and> bounded_by 1 q"
proof -
  from assms(1) obtain a where s: "s = Fin a" and a: "0 \<le> a" "a \<le> B"
    by (cases s) simp_all
  have "0 \<le> a / B" "a / B \<le> 1" using a assms(2) by simp_all
  from fl_bounded[OF this assms(3)] show ?thesis using s assms(2) by simp
qed

lemma float_mul_nonneg_ext:
  assumes "nonneg_ext q" and "as_float y = Inr (Fin c)" and "0 < c"
  shows "\<exists>p. float_mul q y = Inr p \<and> nonneg_ext p"
proof (cases q)
  case (Fin a)
  with assms have "0 \<le> a * c" by simp
  then have "nonneg_ext (fl (a * c))" by (rule fl_nonneg_ext)
  then show ?thesis using Fin assms(2) by (simp add: float_mul_def)
next
  case PInf
  then show ?thesis using assms(2,3) by (simp add: float_mul_def inf_of_sign_def)
qed (use assms in simp_all)

lemma float_mul_bounded:
  assumes "bounded_by 1 q" and "as_float y = Inr (Fin c)" and "0 \<le> c" and "fl c = Fin c"
  shows "\<exists>p. float_mul q y = Inr p \<and> bounded_by c p"
proof -
  from assms(1) obtain a where q: "q = Fin a" and a: "0 \<le> a" "a \<le> 1"
    by (cases q) simp_all
  have "0 \<le> a * c" using a(1) assms(3) by simp
  moreover have "a * c \<le> 1 * c" using a(2) assms(3) by (rule mult_right_mono)
  then have "a * c \<le> c" by simp
  moreover note assms(4)
  ultimately have "bounded_by c (fl (a * c))" by (rule fl_bounded)
  then show ?thesis using q assms(2) by (simp add: float_mul_def)
qed

lemma nonneg_ext_num_le: "nonneg_ext p \<Longrightarrow> num_le (PyInt 0) (PyFloat p)"
  by (cases p) (simp_all add: num_le_def)

lemma bounded_by_num_le: "bounded_by (of_int n) p \<Longrightarrow> num_le (PyFloat p) (PyInt n)"
  by (cases p) (simp_all add: num_le_def)

lemma savings_bounds:
  assumes B: "fl B = Fin B" "0 < B" "round_py (Fin B) 3 = Fin B"
  shows "\<exists>saved pct. savings (Fin B) co2 = Inr (saved, PyFloat pct) \<and> nonneg_ext pct
           \<and> (fle (Fin 0) co2 \<longrightarrow> bounded_by 100 pct)"
proof -
  define saved where "saved = round_py (max_py (Fin 0) (fsub (Fin B) co2)) 3"
  have gt: "fgt (Fin B) (Fin 0)" using B(2) by (simp add: fgt_def)
  have one: "fl 1 = Fin 1"
    by (rule fl_eqI[where e = "0" and q = "- 52" and n = "2 ^ 52"]) simp_all
  have hundred: "fl 100 = Fin 100"
    by (rule fl_eqI[where e = "6" and q = "- 46" and n = "7036874417766400"]) simp_all
  have r100: "round_py (Fin 100) 2 = Fin 100" by (rule round_hundred)
  have nns: "nonneg_ext saved" unfolding saved_def by (intro round_py_nonneg_ext max_py_nonneg_ext)
  from fdiv_nonneg_ext[OF nns B(2)] obtain q where q: "fdiv saved (Fin B) = Inr q" "nonneg_ext q" by blast
  from float_mul_nonneg_ext[OF q(2) float_hundred] obtain p where p: "float_mul q (PyInt 100) = Inr p" "nonneg_ext p"
    by auto
  have sv: "savings (Fin B) co2 = Inr (saved, PyFloat (round_py p 2))"
    using gt q(1) p(1) by (simp add: savings_def Let_def saved_def[symmetric])
  have nnp: "nonneg_ext (round_py p 2)" using p(2) by (rule round_py_nonneg_ext)
  have "bounded_by 100 (round_py p 2)" if co2: "fle (Fin 0) co2"
  proof -
    have "bounded_by B (max_py (Fin 0) (fsub (Fin B) co2))"
      using co2 B(1) B(2) by (intro sub_max_bounded) simp_all
    then have "bounded_by B saved" unfolding saved_def using B(3) by (rule round_py_bounded)
    from fdiv_bounded[OF this B(2) one] q(1) have "bounded_by 1 q" by simp
    from float_mul_bounded[OF this float_hundred _ hundred] p(1) have "bounded_by 100 p" by simp
    then show ?thesis using r100 by (rule round_py_bounded)
  qed
  with sv nnp show ?thesis by blast
qed

section \<open>The calculator against the exact weighted sum\<close>

text \<open>
  Each float operation returns its exact result with a relative error of at most
  \<open>1 / 2 ^ 53\<close>, or an absolute error of at most \<open>eta\<close> near zero. The seven products and the
  seven additions of \<^verbatim>\<open>calculate_co2\<close> therefore stay within \<open>float_slack\<close> of the exact
  weighted sum, and the rounding to 3 decimal places agrees with the rounding of the exact
  sum unless the exact sum is that close to a midpoint between two thousandths.
\<close>

lemma eta_pos: "0 < eta"
  by (simp add: eta_def)

lemma eta_small: "eta \<le> 1 / 2 ^ 200"
proof -
  have "(2::rat) ^ 200 \<le> 2 ^ 1075" by (rule power_increasing) simp_all
  then show ?thesis unfolding eta_def by (simp add: frac_le)
qed

lemma rhe_err: "\<bar>x - of_int (round_half_even x)\<bar> \<le> 1 / 2"
proof -
  have "of_int \<lfloor>x\<rfloor> \<le> x" "x < of_int \<lfloor>x\<rfloor> + 1" by linarith+
  with rhe_cases[of x] show ?thesis by (auto simp: abs_le_iff)
qed

lemma fl_val_err: "\<bar>fl_val x - x\<bar> \<le> \<bar>x\<bar> / 2 ^ 53 + eta"
proof (cases "x = 0")
  case True
  then show ?thesis using eta_pos by simp
next
  case False
  define e where "e = ilog2 \<bar>x\<bar>"
  define q where "q = max e (- 1022) - 52"
  define m where "m = round_half_even (x / 2 powi q)"
  have xpos: "0 < \<bar>x\<bar>" using False by simp
  have lo: "2 powi e \<le> \<bar>x\<bar>" unfolding e_def using ilog2_bounds[OF xpos] by simp
  have f: "fl_val x = of_int m * 2 powi q"
    using fl_val_nz[OF False, of q] by (simp add: q_def e_def m_def)
  have "\<bar>x / 2 powi q - of_int m\<bar> \<le> 1 / 2" unfolding m_def by (rule rhe_err)
  then have "\<bar>x / 2 powi q - of_int m\<bar> * 2 powi q \<le> 1 / 2 * 2 powi q"
    by (rule mult_right_mono) simp
  moreover have "\<bar>x / 2 powi q - of_int m\<bar> * 2 powi q = \<bar>x - of_int m * 2 powi q\<bar>"
  proof -
    have "\<bar>x / 2 powi q - of_int m\<bar> * 2 powi q = \<bar>(x / 2 powi q - of_int m) * 2 powi q\<bar>"
      by (simp add: abs_mult)
    also have "(x / 2 powi q - of_int m) * 2 powi q = x - of_int m * 2 powi q"
      by (simp add: algebra_simps)
    finally show ?thesis .
  qed
  ultimately have d: "\<bar>x - fl_val x\<bar> \<le> 2 powi q / 2" by (simp add: f)
  have "2 powi q / 2 \<le> \<bar>x\<bar> / 2 ^ 53 + eta"
  proof (cases "- 1022 \<le> e")
    case True
    then have "q = e - 52" by (simp add: q_def)
    then have "(2::rat) powi q / 2 = 2 powi e / 2 ^ 53" by (simp add: p2_diff)
    also have "\<dots> \<le> \<bar>x\<bar> / 2 ^ 53" using lo by (simp add: divide_right_mono)
    finally show ?thesis using eta_pos by simp
  next
    case False
    then have "q = - 1074" by (simp add: q_def)
    then have "(2::rat) powi q / 2 = eta" by (simp add: eta_def power_int_minus_divide)
    then show ?thesis by simp
  qed
  with d show ?thesis by (simp add: abs_minus_commute)
qed

lemma fl_finite:
  assumes "\<bar>x\<bar> \<le> 2 ^ 1023"
  shows "fl x = Fin (fl_val x)"
proof -
  have "\<bar>fl_val x\<bar> \<le> \<bar>x\<bar> + \<bar>fl_val x - x\<bar>" by simp
  also have "\<dots> \<le> \<bar>x\<bar> + (\<bar>x\<bar> / 2 ^ 53 + eta)" using fl_val_err[of x] by simp
  also have "\<dots> \<le> 2 ^ 1023 + (2 ^ 1023 / 2 ^ 53 + 1 / 2 ^ 200)"
    using assms eta_small by (intro add_mono divide_right_mono) simp_all
  also have "\<dots> < 2 ^ 1024" by simp
  finally show ?thesis by (simp add: fl_Fin_iff)
qed

lemma rhe_stable:
  assumes "\<bar>x - y\<bar> < tie_gap y"
  shows "round_half_even x = round_half_even y"
proof -
  define f where "f = \<lfloor>y\<rfloor>"
  have fy: "of_int f \<le> y" "y < of_int f + 1" unfolding f_def by linarith+
  have g: "tie_gap y = \<bar>y - of_int f - 1 / 2\<bar>" by (simp add: tie_gap_def f_def)
  consider "y - of_int f < 1 / 2" | "1 / 2 < y - of_int f" | "y - of_int f = 1 / 2" by linarith
  then show ?thesis
  proof cases
    case 1
    then have ry: "round_half_even y = f" by (simp add: round_half_even_def Let_def f_def)
    from assms 1 have "x - y < 1 / 2 - (y - of_int f)" "y - x < 1 / 2 - (y - of_int f)"
      unfolding g by (simp_all add: abs_less_iff)
    then have "x - of_int f < 1 / 2" "- (1 / 2) < x - of_int f"
      using fy by linarith+
    then have "\<bar>x - of_int f\<bar> < 1 / 2" by linarith
    then have "round_half_even x = f" by (rule rhe_eqI)
    with ry show ?thesis by simp
  next
    case 2
    then have ry: "round_half_even y = f + 1" by (simp add: round_half_even_def Let_def f_def)
    from assms 2 have "x - y < y - of_int f - 1 / 2" "y - x < y - of_int f - 1 / 2"
      unfolding g by (simp_all add: abs_less_iff)
    then have "x - (of_int f + 1) < 1 / 2" "- (1 / 2) < x - (of_int f + 1)"
      using fy by linarith+
    then have "\<bar>x - (of_int f + 1)\<bar> < 1 / 2" by linarith
    then have "\<bar>x - of_int (f + 1)\<bar> < 1 / 2" by (simp only: of_int_add of_int_1)
    then have "round_half_even x = f + 1" by (rule rhe_eqI)
    with ry show ?thesis by simp
  next
    case 3
    then show ?thesis using assms unfolding g by simp
  qed
qed

lemma big_powers: "(2::rat) ^ 1000 * 2 ^ 20 \<le> 2 ^ 1023"
proof -
  have "(2::rat) ^ 1000 * 2 ^ 20 = 2 ^ 1020" by (simp flip: power_add)
  also have "\<dots> \<le> 2 ^ 1023" by (rule power_increasing) simp_all
  finally show ?thesis .
qed

lemma input_approx:
  assumes "input_ok y v"
  shows "\<exists>x. as_float y = Inr (Fin x) \<and> 0 \<le> x \<and> \<bar>x - v\<bar> \<le> v / 2 ^ 53 + eta"
proof -
  from assms have ev: "exact_val y = Some v" and v: "0 \<le> v" "v \<le> 2 ^ 1000"
    by (simp_all add: input_ok_def)
  show ?thesis
  proof (cases y)
    case (PyInt n)
    with ev have vn: "v = of_int n" by simp
    have "(2::rat) ^ 1000 \<le> 2 ^ 1023" by (rule power_increasing) simp_all
    with v have "\<bar>v\<bar> \<le> 2 ^ 1023" by simp
    then have f: "fl v = Fin (fl_val v)" by (rule fl_finite)
    have "as_float y = Inr (Fin (fl_val v))" using f by (simp add: PyInt vn)
    moreover have "0 \<le> fl_val v" using v(1) by (rule fl_val_nonneg)
    moreover have "\<bar>fl_val v - v\<bar> \<le> v / 2 ^ 53 + eta" using fl_val_err[of v] v(1) by simp
    ultimately show ?thesis by blast
  next
    case (PyFloat f)
    with ev obtain a where f: "f = Fin a" and a: "a = v" by (cases f) simp_all
    have "as_float y = Inr (Fin v)" by (simp add: PyFloat f a)
    moreover have "\<bar>v - v\<bar> \<le> v / 2 ^ 53 + eta" using v(1) eta_pos by simp
    ultimately show ?thesis using v(1) by blast
  qed
qed

lemma term_approx:
  assumes y: "input_ok y v"
    and c: "0 \<le> c" "c \<le> 8" "0 \<le> d" "\<bar>c - d\<bar> \<le> d / 2 ^ 53"
  shows "\<exists>t. mul_float y (Fin c) = Inr (Fin t) \<and> 0 \<le> t
           \<and> \<bar>t - v * d\<bar> \<le> 4 * (v * d) / 2 ^ 53 + 10 * eta"
proof -
  from y have v: "0 \<le> v" "v \<le> 2 ^ 1000" by (simp_all add: input_ok_def)
  from input_approx[OF y] obtain x where
    x: "as_float y = Inr (Fin x)" "0 \<le> x" "\<bar>x - v\<bar> \<le> v / 2 ^ 53 + eta" by blast
  define T where "T = v * d"
  define P where "P = x * c"
  have T0: "0 \<le> T" using v(1) c(3) by (simp add: T_def)
  have P0: "0 \<le> P" using x(2) c(1) by (simp add: P_def)
  \<comment> \<open>the product is no larger than eight times the input\<close>
  have "P \<le> x * 8" unfolding P_def using c(2) x(2) by (rule mult_left_mono)
  moreover have "x \<le> v + v / 2 ^ 53 + eta" using x(3) by linarith
  ultimately have "P \<le> 2 ^ 1000 * 2 ^ 20"
    using v eta_small by (simp add: field_simps)
  with big_powers P0 have "\<bar>P\<bar> \<le> 2 ^ 1023" by simp
  then have fP: "fl P = Fin (fl_val P)" by (rule fl_finite)
  have m: "mul_float y (Fin c) = Inr (Fin (fl_val P))"
    using x(1) fP by (simp add: mul_float_def P_def)
  have t0: "0 \<le> fl_val P" using P0 by (rule fl_val_nonneg)
  \<comment> \<open>the error of the product\<close>
  have "c \<le> d + d / 2 ^ 53" using c(4) by linarith
  then have "v * c \<le> v * (d + d / 2 ^ 53)" using v(1) by (rule mult_left_mono)
  then have A: "v * c \<le> T + T / 2 ^ 53" by (simp add: T_def algebra_simps)
  have "\<bar>P - v * c\<bar> = \<bar>x - v\<bar> * c"
  proof -
    have "P - v * c = (x - v) * c" by (simp add: P_def algebra_simps)
    then show ?thesis using c(1) by (simp add: abs_mult)
  qed
  also have "\<dots> \<le> (v / 2 ^ 53 + eta) * c" using x(3) c(1) by (rule mult_right_mono)
  also have "\<dots> = (v * c) / 2 ^ 53 + eta * c" by (simp add: algebra_simps)
  also have "\<dots> \<le> (T + T / 2 ^ 53) / 2 ^ 53 + eta * 8"
    using A c(2) eta_pos by (intro add_mono divide_right_mono mult_left_mono) simp_all
  finally have B: "\<bar>P - v * c\<bar> \<le> (T + T / 2 ^ 53) / 2 ^ 53 + eta * 8" .
  have "\<bar>v * c - T\<bar> = v * \<bar>c - d\<bar>"
  proof -
    have "v * c - T = v * (c - d)" by (simp add: T_def algebra_simps)
    then show ?thesis using v(1) by (simp add: abs_mult)
  qed
  also have "\<dots> \<le> v * (d / 2 ^ 53)" using c(4) v(1) by (rule mult_left_mono)
  also have "\<dots> = T / 2 ^ 53" by (simp add: T_def)
  finally have C: "\<bar>v * c - T\<bar> \<le> T / 2 ^ 53" .
  have D: "\<bar>fl_val P - P\<bar> \<le> \<bar>P\<bar> / 2 ^ 53 + eta" by (rule fl_val_err)
  define e1 where "e1 = \<bar>P - v * c\<bar>"
  define e2 where "e2 = \<bar>v * c - T\<bar>"
  define e3 where "e3 = \<bar>fl_val P - P\<bar>"
  have tri: "\<bar>fl_val P - T\<bar> \<le> e3 + e1 + e2" unfolding e1_def e2_def e3_def by linarith
  have Pb: "P \<le> T + e1 + e2" unfolding e1_def e2_def by linarith
  have B': "e1 \<le> (T + T / 2 ^ 53) / 2 ^ 53 + eta * 8" using B by (simp only: e1_def)
  have C': "e2 \<le> T / 2 ^ 53" using C by (simp only: e2_def)
  have D': "e3 \<le> P / 2 ^ 53 + eta" using D P0 by (simp add: e3_def)
  have "e3 + e1 + e2 \<le> 4 * T / 2 ^ 53 + 10 * eta"
    using B' C' D' Pb T0 eta_pos by (simp add: field_simps)
  with tri have "\<bar>fl_val P - T\<bar> \<le> 4 * T / 2 ^ 53 + 10 * eta" by linarith
  with m t0 show ?thesis unfolding T_def by blast
qed

lemma approx_transport_km_car:
  "\<exists>c. transport_km_car EMISSION_FACTORS = Fin c \<and> 0 \<le> c \<and> c \<le> 8
        \<and> \<bar>c - 192 / 1000\<bar> \<le> (192 / 1000) / 2 ^ 53"
  by (rule exI[of _ "3458764513820541 / 18014398509481984"]) (simp add: factor_transport_km_car)

lemma approx_transport_km_bus:
  "\<exists>c. transport_km_bus EMISSION_FACTORS = Fin c \<and> 0 \<le> c \<and> c \<le> 8
        \<and> \<bar>c - 89 / 1000\<bar> \<le> (89 / 1000) / 2 ^ 53"
  by (rule exI[of _ "3206562934687793 / 36028797018963968"]) (simp add: factor_transport_km_bus)

lemma approx_transport_km_bike_walk:
  "\<exists>c. transport_km_bike_walk EMISSION_FACTORS = Fin c \<and> 0 \<le> c \<and> c \<le> 8
        \<and> \<bar>c - 0\<bar> \<le> 0 / 2 ^ 53"
  by (rule exI[of _ "0"]) (simp add: factor_transport_km_bike_walk)

lemma approx_electricity_kwh_factor:
  "\<exists>c. electricity_kwh_factor EMISSION_FACTORS = Fin c \<and> 0 \<le> c \<and> c \<le> 8
        \<and> \<bar>c - 82 / 100\<bar> \<le> (82 / 100) / 2 ^ 53"
  by (rule exI[of _ "7385903388887613 / 9007199254740992"]) (simp add: factor_electricity_kwh_factor)

lemma approx_meat_meal:
  "\<exists>c. meat_meal EMISSION_FACTORS = Fin c \<and> 0 \<le> c \<and> c \<le> 8
        \<and> \<bar>c - 5\<bar> \<le> 5 / 2 ^ 53"
  by (rule exI[of _ "5"]) (simp add: factor_meat_meal)

lemma approx_veg_meal:
  "\<exists>c. veg_meal EMISSION_FACTORS = Fin c \<and> 0 \<le> c \<and> c \<le> 8
        \<and> \<bar>c - 2\<bar> \<le> 2 / 2 ^ 53"
  by (rule exI[of _ "2"]) (simp add: factor_veg_meal)

lemma approx_plastic_item:
  "\<exists>c. plastic_item EMISSION_FACTORS = Fin c \<and> 0 \<le> c \<and> c \<le> 8
        \<and> \<bar>c - 1 / 10\<bar> \<le> (1 / 10) / 2 ^ 53"
  by (rule exI[of _ "3602879701896397 / 36028797018963968"]) (simp add: factor_plastic_item)

lemma factor_term:
  assumes "input_ok y v"
    and "\<exists>c. f = Fin c \<and> 0 \<le> c \<and> c \<le> 8 \<and> \<bar>c - d\<bar> \<le> d / 2 ^ 53" and "0 \<le> d" "d \<le> 5"
  shows "\<exists>t. mul_float y f = Inr (Fin t) \<and> 0 \<le> v * d \<and> v * d \<le> 5 * 2 ^ 1000
           \<and> \<bar>t - v * d\<bar> \<le> 4 * (v * d) / 2 ^ 53 + 10 * eta"
proof -
  from assms(2) obtain c where c: "f = Fin c" "0 \<le> c" "c \<le> 8" "\<bar>c - d\<bar> \<le> d / 2 ^ 53"
    by blast
  from assms(1) have v: "0 \<le> v" "v \<le> 2 ^ 1000" by (simp_all add: input_ok_def)
  have "v * d \<le> 2 ^ 1000 * 5" using v assms(3,4) by (intro mult_mono) simp_all
  moreover have "0 \<le> v * d" using v(1) assms(3) by simp
  ultimately show ?thesis using term_approx[OF assms(1) c(2,3) assms(3) c(4)] c(1) by auto
qed

lemma term_transport_km_car:
  assumes "input_ok y v"
  shows "\<exists>t. mul_float y (transport_km_car EMISSION_FACTORS) = Inr (Fin t) \<and> 0 \<le> v * (192 / 1000)
           \<and> v * (192 / 1000) \<le> 5 * 2 ^ 1000
           \<and> \<bar>t - v * (192 / 1000)\<bar> \<le> 4 * (v * (192 / 1000)) / 2 ^ 53 + 10 * eta"
  by (rule factor_term[OF assms approx_transport_km_car]) simp_all

lemma term_transport_km_bus:
  assumes "input_ok y v"
  shows "\<exists>t. mul_float y (transport_km_bus EMISSION_FACTORS) = Inr (Fin t) \<and> 0 \<le> v * (89 / 1000)
           \<and> v * (89 / 1000) \<le> 5 * 2 ^ 1000
           \<and> \<bar>t - v * (89 / 1000)\<bar> \<le> 4 * (v * (89 / 1000)) / 2 ^ 53 + 10 * eta"
  by (rule factor_term[OF assms approx_transport_km_bus]) simp_all

lemma term_transport_km_bike_walk:
  assumes "input_ok y v"
  shows "\<exists>t. mul_float y (transport_km_bike_walk EMISSION_FACTORS) = Inr (Fin t) \<and> 0 \<le> v * (0)
           \<and> v * (0) \<le> 5 * 2 ^ 1000
           \<and> \<bar>t - v * (0)\<bar> \<le> 4 * (v * (0)) / 2 ^ 53 + 10 * eta"
  by (rule factor_term[OF assms approx_transport_km_bike_walk]) simp_all

lemma term_electricity_kwh_factor:
  assumes "input_ok y v"
  shows "\<exists>t. mul_float y (electricity_kwh_factor EMISSION_FACTORS) = Inr (Fin t) \<and> 0 \<le> v * (82 / 100)
           \<and> v * (82 / 100) \<le> 5 * 2 ^ 1000
           \<and> \<bar>t - v * (82 / 100)\<bar> \<le> 4 * (v * (82 / 100)) / 2 ^ 53 + 10 * eta"
  by (rule factor_term[OF assms approx_electricity_kwh_factor]) simp_all

lemma term_meat_meal:
  assumes "input_ok y v"
  shows "\<exists>t. mul_float y (meat_meal EMISSION_FACTORS) = Inr (Fin t) \<and> 0 \<le> v * (5)
           \<and> v * (5) \<le> 5 * 2 ^ 1000
           \<and> \<bar>t - v * (5)\<bar> \<le> 4 * (v * (5)) / 2 ^ 53 + 10 * eta"
  by (rule factor_term[OF assms approx_meat_meal]) simp_all

lemma term_veg_meal:
  assumes "input_ok y v"
  shows "\<exists>t. mul_float y (veg_meal EMISSION_FACTORS) = Inr (Fin t) \<and> 0 \<le> v * (2)
           \<and> v * (2) \<le> 5 * 2 ^ 1000
           \<and> \<bar>t - v * (2)\<bar> \<le> 4 * (v * (2)) / 2 ^ 53 + 10 * eta"
  by (rule factor_term[OF assms approx_veg_meal]) simp_all

lemma term_plastic_item:
  assumes "input_ok y v"
  shows "\<exists>t. mul_float y (plastic_item EMISSION_FACTORS) = Inr (Fin t) \<and> 0 \<le> v * (1 / 10)
           \<and> v * (1 / 10) \<le> 5 * 2 ^ 1000
           \<and> \<bar>t - v * (1 / 10)\<bar> \<le> 4 * (v * (1 / 10)) / 2 ^ 53 + 10 * eta"
  by (rule factor_term[OF assms approx_plastic_item]) simp_all

lemma acc_step:
  fixes a b :: rat
  assumes s: "\<bar>s - X\<bar> \<le> a * (X / 2 ^ 53) + b * eta"
    and t: "\<bar>t - Y\<bar> \<le> 4 * Y / 2 ^ 53 + 10 * eta"
    and X: "0 \<le> X" "X \<le> 30 * B" and Y: "0 \<le> Y" "Y \<le> 5 * B"
    and a: "4 \<le> a" "a \<le> 16" and b: "0 \<le> b" "b \<le> 72"
    and B: "1 \<le> B" "100 * B \<le> 2 ^ 1023"
  shows "\<bar>fl_val (s + t) - (X + Y)\<bar> \<le> (a + 2) * ((X + Y) / 2 ^ 53) + (b + 12) * eta"
    and "\<bar>fl_val (s - t) - (X - Y)\<bar> \<le> (a + 2) * ((X + Y) / 2 ^ 53) + (b + 12) * eta"
    and "fl (s + t) = Fin (fl_val (s + t))"
    and "fl (s - t) = Fin (fl_val (s - t))"
proof -
  define P where "P = X / 2 ^ 53"
  define Q where "Q = Y / 2 ^ 53"
  define AP where "AP = a * P"
  define AQ where "AQ = a * Q"
  define be where "be = b * eta"
  have P0: "0 \<le> P" "0 \<le> Q" using X(1) Y(1) by (simp_all add: P_def Q_def)
  have PX: "X = 9007199254740992 * P" "Y = 9007199254740992 * Q" by (simp_all add: P_def Q_def)
  have AP1: "4 * P \<le> AP" unfolding AP_def using a(1) P0(1) by (rule mult_right_mono)
  have AP2: "AP \<le> 16 * P" unfolding AP_def using a(2) P0(1) by (rule mult_right_mono)
  have AQ1: "4 * Q \<le> AQ" unfolding AQ_def using a(1) P0(2) by (rule mult_right_mono)
  have be0: "0 \<le> be" unfolding be_def using b(1) eta_pos by simp
  have be1: "be \<le> 72 * eta" unfolding be_def using b(2) eta_pos by (intro mult_right_mono) simp_all
  have e: "0 < eta" "eta \<le> 1 / 2 ^ 200" by (rule eta_pos, rule eta_small)
  then have e1: "eta \<le> 1 / 1000" by simp
  have es: "\<bar>s - X\<bar> \<le> AP + be" using s by (simp add: AP_def P_def be_def)
  have et: "\<bar>t - Y\<bar> \<le> 4 * Q + 10 * eta" using t by (simp add: Q_def)
  have rhs: "(a + 2) * ((X + Y) / 2 ^ 53) + (b + 12) * eta = AP + AQ + 2 * P + 2 * Q + be + 12 * eta"
    by (simp add: AP_def AQ_def P_def Q_def be_def algebra_simps add_divide_distrib)
  have gen: "fl z = Fin (fl_val z) \<and> \<bar>fl_val z - W\<bar> \<le> AP + AQ + 2 * P + 2 * Q + be + 12 * eta"
    if z: "\<bar>z - W\<bar> \<le> \<bar>s - X\<bar> + \<bar>t - Y\<bar>" and W: "\<bar>W\<bar> \<le> X + Y" for z W
  proof -
    define U where "U = X + Y + (AP + be) + (4 * Q + 10 * eta)"
    have zb: "\<bar>z\<bar> \<le> U" unfolding U_def using z W es et by linarith
    have "U \<le> 100 * B" unfolding U_def using AP2 be1 e1 X Y B(1) PX P0 by linarith
    with zb have "\<bar>z\<bar> \<le> 100 * B" by linarith
    then have "\<bar>z\<bar> \<le> 2 ^ 1023" using B(2) by (rule order_trans)
    then have fin: "fl z = Fin (fl_val z)" by (rule fl_finite)
    have E: "\<bar>fl_val z - z\<bar> \<le> \<bar>z\<bar> / 2 ^ 53 + eta" by (rule fl_val_err)
    have "\<bar>z\<bar> / 2 ^ 53 \<le> U / 2 ^ 53" using zb by (rule divide_right_mono) simp
    also have "U / 2 ^ 53 = P + Q + (AP + be) / 2 ^ 53 + (4 * Q + 10 * eta) / 2 ^ 53"
      by (simp add: U_def P_def Q_def add_divide_distrib)
    finally have F: "\<bar>z\<bar> / 2 ^ 53 \<le> P + Q + (AP + be) / 2 ^ 53 + (4 * Q + 10 * eta) / 2 ^ 53" .
    define e1 where "e1 = \<bar>fl_val z - z\<bar>"
    define e2 where "e2 = \<bar>z - W\<bar>"
    define e3 where "e3 = \<bar>z\<bar> / 2 ^ 53"
    have tri: "\<bar>fl_val z - W\<bar> \<le> e1 + e2" unfolding e1_def e2_def by linarith
    have E': "e1 \<le> e3 + eta" using E by (simp only: e1_def e3_def)
    have F': "e3 \<le> P + Q + (AP + be) / 2 ^ 53 + (4 * Q + 10 * eta) / 2 ^ 53" using F by (simp only: e3_def)
    have G': "e2 \<le> (AP + be) + (4 * Q + 10 * eta)" unfolding e2_def using z es et by linarith
    have "e1 + e2 \<le> AP + AQ + 2 * P + 2 * Q + be + 12 * eta"
      using E' F' G' AP2 AQ1 be0 be1 e(1) P0 by (simp add: field_simps)
    with tri fin show ?thesis by linarith
  qed
  have A: "\<bar>(s + t) - (X + Y)\<bar> \<le> \<bar>s - X\<bar> + \<bar>t - Y\<bar>" by linarith
  have A': "\<bar>X + Y\<bar> \<le> X + Y" using X(1) Y(1) by simp
  have S: "\<bar>(s - t) - (X - Y)\<bar> \<le> \<bar>s - X\<bar> + \<bar>t - Y\<bar>" by linarith
  have S': "\<bar>X - Y\<bar> \<le> X + Y" using X(1) Y(1) by linarith
  show "\<bar>fl_val (s + t) - (X + Y)\<bar> \<le> (a + 2) * ((X + Y) / 2 ^ 53) + (b + 12) * eta"
    using gen[OF A A'] by (simp only: rhs)
  show "\<bar>fl_val (s - t) - (X - Y)\<bar> \<le> (a + 2) * ((X + Y) / 2 ^ 53) + (b + 12) * eta"
    using gen[OF S S'] by (simp only: rhs)
  show "fl (s + t) = Fin (fl_val (s + t))" using gen[OF A A'] by (rule conjunct1)
  show "fl (s - t) = Fin (fl_val (s - t))" using gen[OF S S'] by (rule conjunct1)
qed

lemma power_1000_bound: "100 * (2::rat) ^ 1000 \<le> 2 ^ 1023"
proof -
  have "100 * (2::rat) ^ 1000 \<le> 2 ^ 20 * 2 ^ 1000" by (intro mult_right_mono) simp_all
  then show ?thesis using big_powers by (simp add: mult.commute)
qed


lemma accumulate_approx:
  assumes "input_ok y1 v1" "input_ok y2 v2" "input_ok y3 v3" "input_ok y4 v4" "input_ok y5 v5" "input_ok y6 v6" "input_ok y7 v7"
  shows "\<exists>a. calculate_co2 y1 y2 y3 y4 y5 y6 y7 = Inr (round_py (Fin a) 3)
           \<and> \<bar>a - weighted_sum_exact v1 v2 v3 v4 v5 v6 v7\<bar>
                \<le> 18 * (weighted_magnitude v1 v2 v3 v4 v5 v6 v7 / 2 ^ 53) + 84 * eta
           \<and> \<bar>weighted_sum_exact v1 v2 v3 v4 v5 v6 v7\<bar> \<le> weighted_magnitude v1 v2 v3 v4 v5 v6 v7
           \<and> weighted_magnitude v1 v2 v3 v4 v5 v6 v7 \<le> 35 * 2 ^ 1000"
proof -
  define B :: rat where "B = 2 ^ 1000"
  have B: "1 \<le> B" "100 * B \<le> 2 ^ 1023" unfolding B_def by (simp, rule power_1000_bound)
  define T1 where "T1 = v1 * (192 / 1000)"
  define T2 where "T2 = v2 * (89 / 1000)"
  define T3 where "T3 = v3 * (0)"
  define T4 where "T4 = v4 * (82 / 100)"
  define T5 where "T5 = v5 * (5)"
  define T6 where "T6 = v6 * (2)"
  define T7 where "T7 = v7 * (1 / 10)"
  obtain t1 where t1: "mul_float y1 (transport_km_car EMISSION_FACTORS) = Inr (Fin t1)"
      "0 \<le> T1" "T1 \<le> 5 * B" "\<bar>t1 - T1\<bar> \<le> 4 * T1 / 2 ^ 53 + 10 * eta"
    using term_transport_km_car[OF assms(1)] unfolding T1_def B_def by blast
  obtain t2 where t2: "mul_float y2 (transport_km_bus EMISSION_FACTORS) = Inr (Fin t2)"
      "0 \<le> T2" "T2 \<le> 5 * B" "\<bar>t2 - T2\<bar> \<le> 4 * T2 / 2 ^ 53 + 10 * eta"
    using term_transport_km_bus[OF assms(2)] unfolding T2_def B_def by blast
  obtain t3 where t3: "mul_float y3 (transport_km_bike_walk EMISSION_FACTORS) = Inr (Fin t3)"
      "0 \<le> T3" "T3 \<le> 5 * B" "\<bar>t3 - T3\<bar> \<le> 4 * T3 / 2 ^ 53 + 10 * eta"
    using term_transport_km_bike_walk[OF assms(3)] unfolding T3_def B_def by blast
  obtain t4 where t4: "mul_float y4 (electricity_kwh_factor EMISSION_FACTORS) = Inr (Fin t4)"
      "0 \<le> T4" "T4 \<le> 5 * B" "\<bar>t4 - T4\<bar> \<le> 4 * T4 / 2 ^ 53 + 10 * eta"
    using term_electricity_kwh_factor[OF assms(4)] unfolding T4_def B_def by blast
  obtain t5 where t5: "mul_float y5 (meat_meal EMISSION_FACTORS) = Inr (Fin t5)"
      "0 \<le> T5" "T5 \<le> 5 * B" "\<bar>t5 - T5\<bar> \<le> 4 * T5 / 2 ^ 53 + 10 * eta"
    using term_meat_meal[OF assms(5)] unfolding T5_def B_def by blast
  obtain t6 where t6: "mul_float y6 (veg_meal EMISSION_FACTORS) = Inr (Fin t6)"
      "0 \<le> T6" "T6 \<le> 5 * B" "\<bar>t6 - T6\<bar> \<le> 4 * T6 / 2 ^ 53 + 10 * eta"
    using term_veg_meal[OF assms(6)] unfolding T6_def B_def by blast
  obtain t7 where t7: "mul_float y7 (plastic_item EMISSION_FACTORS) = Inr (Fin t7)"
      "0 \<le> T7" "T7 \<le> 5 * B" "\<bar>t7 - T7\<bar> \<le> 4 * T7 / 2 ^ 53 + 10 * eta"
    using term_plastic_item[OF assms(7)] unfolding T7_def B_def by blast
  define X0 :: rat where "X0 = 0"
  define r0 :: rat where "r0 = 0"
  have e0: "\<bar>r0 - X0\<bar> \<le> 4 * (X0 / 2 ^ 53) + 0 * eta" by (simp add: X0_def r0_def)
  have X0: "0 \<le> X0" "X0 \<le> 30 * B" using B(1) by (simp_all add: X0_def)
  have Y0: "X0 \<le> 0 * B" by (simp add: X0_def)
  define X1 where "X1 = X0 + T1"
  define r1 where "r1 = fl_val (r0 + t1)"
  have n1: "(4::rat) \<le> 4" "(4::rat) \<le> 16" "(0::rat) \<le> 0" "(0::rat) \<le> 72" by simp_all
  note st1 = acc_step[OF e0 t1(4) X0 t1(2,3) n1 B]
  have "\<bar>r1 - X1\<bar> \<le> (4 + 2) * (X1 / 2 ^ 53) + (0 + 12) * eta"
    unfolding r1_def X1_def by (rule st1(1))
  then have e1: "\<bar>r1 - X1\<bar> \<le> 6 * (X1 / 2 ^ 53) + 12 * eta" by simp
  have Y1: "X1 \<le> 5 * B" unfolding X1_def using Y0 t1(3) by linarith
  have X1: "0 \<le> X1" "X1 \<le> 30 * B" using X0(1) t1(2) Y1 B(1) by (simp add: X1_def, linarith)
  have f1: "fadd (Fin r0) (Fin t1) = Fin r1" unfolding r1_def by (simp add: st1(3))
  define X2 where "X2 = X1 + T2"
  define r2 where "r2 = fl_val (r1 + t2)"
  have n2: "(4::rat) \<le> 6" "(6::rat) \<le> 16" "(0::rat) \<le> 12" "(12::rat) \<le> 72" by simp_all
  note st2 = acc_step[OF e1 t2(4) X1 t2(2,3) n2 B]
  have "\<bar>r2 - X2\<bar> \<le> (6 + 2) * (X2 / 2 ^ 53) + (12 + 12) * eta"
    unfolding r2_def X2_def by (rule st2(1))
  then have e2: "\<bar>r2 - X2\<bar> \<le> 8 * (X2 / 2 ^ 53) + 24 * eta" by simp
  have Y2: "X2 \<le> 10 * B" unfolding X2_def using Y1 t2(3) by linarith
  have X2: "0 \<le> X2" "X2 \<le> 30 * B" using X1(1) t2(2) Y2 B(1) by (simp add: X2_def, linarith)
  have f2: "fadd (Fin r1) (Fin t2) = Fin r2" unfolding r2_def by (simp add: st2(3))
  define X3 where "X3 = X2 + T3"
  define r3 where "r3 = fl_val (r2 + t3)"
  have n3: "(4::rat) \<le> 8" "(8::rat) \<le> 16" "(0::rat) \<le> 24" "(24::rat) \<le> 72" by simp_all
  note st3 = acc_step[OF e2 t3(4) X2 t3(2,3) n3 B]
  have "\<bar>r3 - X3\<bar> \<le> (8 + 2) * (X3 / 2 ^ 53) + (24 + 12) * eta"
    unfolding r3_def X3_def by (rule st3(1))
  then have e3: "\<bar>r3 - X3\<bar> \<le> 10 * (X3 / 2 ^ 53) + 36 * eta" by simp
  have Y3: "X3 \<le> 15 * B" unfolding X3_def using Y2 t3(3) by linarith
  have X3: "0 \<le> X3" "X3 \<le> 30 * B" using X2(1) t3(2) Y3 B(1) by (simp add: X3_def, linarith)
  have f3: "fadd (Fin r2) (Fin t3) = Fin r3" unfolding r3_def by (simp add: st3(3))
  define X4 where "X4 = X3 + T4"
  define r4 where "r4 = fl_val (r3 + t4)"
  have n4: "(4::rat) \<le> 10" "(10::rat) \<le> 16" "(0::rat) \<le> 36" "(36::rat) \<le> 72" by simp_all
  note st4 = acc_step[OF e3 t4(4) X3 t4(2,3) n4 B]
  have "\<bar>r4 - X4\<bar> \<le> (10 + 2) * (X4 / 2 ^ 53) + (36 + 12) * eta"
    unfolding r4_def X4_def by (rule st4(1))
  then have e4: "\<bar>r4 - X4\<bar> \<le> 12 * (X4 / 2 ^ 53) + 48 * eta" by simp
  have Y4: "X4 \<le> 20 * B" unfolding X4_def using Y3 t4(3) by linarith
  have X4: "0 \<le> X4" "X4 \<le> 30 * B" using X3(1) t4(2) Y4 B(1) by (simp add: X4_def, linarith)
  have f4: "fadd (Fin r3) (Fin t4) = Fin r4" unfolding r4_def by (simp add: st4(3))
  define X5 where "X5 = X4 + T5"
  define r5 where "r5 = fl_val (r4 + t5)"
  have n5: "(4::rat) \<le> 12" "(12::rat) \<le> 16" "(0::rat) \<le> 48" "(48::rat) \<le> 72" by simp_all
  note st5 = acc_step[OF e4 t5(4) X4 t5(2,3) n5 B]
  have "\<bar>r5 - X5\<bar> \<le> (12 + 2) * (X5 / 2 ^ 53) + (48 + 12) * eta"
    unfolding r5_def X5_def by (rule st5(1))
  then have e5: "\<bar>r5 - X5\<bar> \<le> 14 * (X5 / 2 ^ 53) + 60 * eta" by simp
  have Y5: "X5 \<le> 25 * B" unfolding X5_def using Y4 t5(3) by linarith
  have X5: "0 \<le> X5" "X5 \<le> 30 * B" using X4(1) t5(2) Y5 B(1) by (simp add: X5_def, linarith)
  have f5: "fadd (Fin r4) (Fin t5) = Fin r5" unfolding r5_def by (simp add: st5(3))
  define X6 where "X6 = X5 + T6"
  define r6 where "r6 = fl_val (r5 + t6)"
  have n6: "(4::rat) \<le> 14" "(14::rat) \<le> 16" "(0::rat) \<le> 60" "(60::rat) \<le> 72" by simp_all
  note st6 = acc_step[OF e5 t6(4) X5 t6(2,3) n6 B]
  have "\<bar>r6 - X6\<bar> \<le> (14 + 2) * (X6 / 2 ^ 53) + (60 + 12) * eta"
    unfolding r6_def X6_def by (rule st6(1))
  then have e6: "\<bar>r6 - X6\<bar> \<le> 16 * (X6 / 2 ^ 53) + 72 * eta" by simp
  have Y6: "X6 \<le> 30 * B" unfolding X6_def using Y5 t6(3) by linarith
  have X6: "0 \<le> X6" "X6 \<le> 30 * B" using X5(1) t6(2) Y6 B(1) by (simp add: X6_def, linarith)
  have f6: "fadd (Fin r5) (Fin t6) = Fin r6" unfolding r6_def by (simp add: st6(3))
  define X7 where "X7 = X6 - T7"
  define r7 where "r7 = fl_val (r6 - t7)"
  have n7: "(4::rat) \<le> 16" "(16::rat) \<le> 16" "(0::rat) \<le> 72" "(72::rat) \<le> 72" by simp_all
  note st7 = acc_step[OF e6 t7(4) X6 t7(2,3) n7 B]
  define M where "M = X6 + T7"
  have "\<bar>r7 - X7\<bar> \<le> (16 + 2) * (M / 2 ^ 53) + (72 + 12) * eta"
    unfolding r7_def X7_def M_def by (rule st7(2))
  then have e7: "\<bar>r7 - X7\<bar> \<le> 18 * (M / 2 ^ 53) + 84 * eta" by simp
  have f7: "fsub (Fin r6) (Fin t7) = Fin r7" unfolding r7_def by (simp add: fsub_def st7(4))
  have Xs: "X7 = weighted_sum_exact v1 v2 v3 v4 v5 v6 v7"
    by (simp add: weighted_sum_exact_def X7_def X6_def X5_def X4_def X3_def X2_def X1_def X0_def
        T1_def T2_def T3_def T4_def T5_def T6_def T7_def)
  have Ms: "M = weighted_magnitude v1 v2 v3 v4 v5 v6 v7"
    by (simp add: weighted_magnitude_def M_def X6_def X5_def X4_def X3_def X2_def X1_def X0_def
        T1_def T2_def T3_def T4_def T5_def T6_def T7_def)
  have SM: "\<bar>X7\<bar> \<le> M" unfolding X7_def M_def using X6(1) t7(2) by linarith
  have Mb: "M \<le> 35 * B" unfolding M_def using X6(2) t7(3) by linarith
  have f0: "fadd (Fin 0) (Fin t1) = Fin r1" using f1 by (simp add: r0_def)
  have "calculate_co2 y1 y2 y3 y4 y5 y6 y7 = Inr (round_py (Fin r7) 3)"
    unfolding calculate_co2_def Let_def
    by (simp only: t1(1) t2(1) t3(1) t4(1) t5(1) t6(1) t7(1) ebind_Inr f0 f2 f3 f4 f5 f6 f7)
  with e7 SM Mb show ?thesis unfolding Xs Ms B_def by blast
qed

lemma rounded_sum_general:
  assumes "input_ok y1 v1" "input_ok y2 v2" "input_ok y3 v3" "input_ok y4 v4"
    "input_ok y5 v5" "input_ok y6 v6" "input_ok y7 v7"
  shows "\<exists>r K. calculate_co2 y1 y2 y3 y4 y5 y6 y7 = Inr (Fin r)
           \<and> Fin r = fl (of_int K / 1000)
           \<and> \<bar>r - weighted_sum_exact v1 v2 v3 v4 v5 v6 v7\<bar>
                \<le> 1 / 2000 + float_slack (weighted_magnitude v1 v2 v3 v4 v5 v6 v7)
           \<and> (1000 * float_slack (weighted_magnitude v1 v2 v3 v4 v5 v6 v7)
                  < tie_gap (weighted_sum_exact v1 v2 v3 v4 v5 v6 v7 * 1000)
                \<longrightarrow> Fin r = round_exact (weighted_sum_exact v1 v2 v3 v4 v5 v6 v7) 3)"
proof -
  define S where "S = weighted_sum_exact v1 v2 v3 v4 v5 v6 v7"
  define M where "M = weighted_magnitude v1 v2 v3 v4 v5 v6 v7"
  define B :: rat where "B = 2 ^ 1000"
  have B: "1 \<le> B" "100 * B \<le> 2 ^ 1023" unfolding B_def by (simp, rule power_1000_bound)
  obtain a where a: "calculate_co2 y1 y2 y3 y4 y5 y6 y7 = Inr (round_py (Fin a) 3)"
      "\<bar>a - S\<bar> \<le> 18 * (M / 2 ^ 53) + 84 * eta" "\<bar>S\<bar> \<le> M" "M \<le> 35 * B"
    using accumulate_approx[OF assms] unfolding S_def M_def B_def by blast
  have e: "0 < eta" "eta \<le> 1 / 2 ^ 200" by (rule eta_pos, rule eta_small)
  then have e1: "eta \<le> 1 / 2 ^ 60" by simp
  have M0: "0 \<le> M" using a(3) by linarith
  define K where "K = round_half_even (a * 1000)"
  define kk :: rat where "kk = of_int K"
  define x where "x = kk / 1000"
  have rp: "round_py (Fin a) 3 = fl x" by (simp add: K_def x_def kk_def)
  have "\<bar>a * 1000 - kk\<bar> \<le> 1 / 2" unfolding kk_def K_def by (rule rhe_err)
  then have xa: "\<bar>x - a\<bar> \<le> 1 / 2000" unfolding x_def by linarith
  define e3 where "e3 = \<bar>a - S\<bar>"
  define e2 where "e2 = \<bar>x - a\<bar>"
  define ax where "ax = \<bar>x\<bar>"
  have e3: "e3 \<le> 18 * (M / 2 ^ 53) + 84 * eta" "0 \<le> e3" using a(2) by (simp_all add: e3_def)
  have e2: "e2 \<le> 1 / 2000" "0 \<le> e2" using xa by (simp_all add: e2_def)
  have ax: "ax \<le> M + e3 + e2" unfolding ax_def e3_def e2_def using a(3) by linarith
  have "ax \<le> 100 * B" using ax e3 e2 e1 a(4) B(1) M0 by (simp add: field_simps)
  then have "\<bar>x\<bar> \<le> 2 ^ 1023" unfolding ax_def using B(2) by (rule order_trans)
  then have fin: "fl x = Fin (fl_val x)" by (rule fl_finite)
  define r where "r = fl_val x"
  define e4 where "e4 = \<bar>r - x\<bar>"
  have "\<bar>fl_val x - x\<bar> \<le> \<bar>x\<bar> / 2 ^ 53 + eta" by (rule fl_val_err)
  then have e4: "e4 \<le> ax / 2 ^ 53 + eta" by (simp only: e4_def r_def ax_def)
  have tri: "\<bar>r - S\<bar> \<le> e4 + e2 + e3" unfolding e4_def e2_def e3_def by linarith
  have "e4 + e2 + e3 \<le> 1 / 2000 + (M + 1) / 2 ^ 48"
    using e4 ax e3 e2 e1 M0 by (simp add: field_simps)
  with tri have bound: "\<bar>r - S\<bar> \<le> 1 / 2000 + float_slack M" by (simp add: float_slack_def)
  have c: "calculate_co2 y1 y2 y3 y4 y5 y6 y7 = Inr (Fin r)"
    by (simp only: a(1) rp fin r_def)
  have k: "Fin r = fl (of_int K / 1000)"
    unfolding r_def fin[symmetric] by (simp only: x_def kk_def)
  have ex: "Fin r = round_exact S 3" if g: "1000 * float_slack M < tie_gap (S * 1000)"
  proof -
    have "a * 1000 - S * 1000 = 1000 * (a - S)" by simp
    then have "\<bar>a * 1000 - S * 1000\<bar> = 1000 * e3" unfolding e3_def by (simp only: abs_mult)
    moreover have "1000 * e3 < 1000 * float_slack M"
      using e3 e1 M0 by (simp add: float_slack_def field_simps)
    ultimately have "\<bar>a * 1000 - S * 1000\<bar> < tie_gap (S * 1000)" using g by linarith
    then have "round_half_even (a * 1000) = round_half_even (S * 1000)" by (rule rhe_stable)
    then have "round_py (Fin a) 3 = round_exact S 3" by (simp add: round_exact_def)
    then show ?thesis by (simp only: r_def fin[symmetric] rp[symmetric])
  qed
  show ?thesis using c k bound ex unfolding S_def M_def by blast
qed

lemma tie_gap_eqI:
  "of_int n \<le> x \<Longrightarrow> x < of_int n + 1 \<Longrightarrow> tie_gap x = \<bar>x - of_int n - 1 / 2\<bar>"
  by (simp add: tie_gap_def floor_unique)

lemma round_exactI:
  "\<bar>s * 10 ^ nd - of_int k\<bar> < 1 / 2 \<or> \<bar>s * 10 ^ nd - of_int k\<bar> = 1 / 2 \<and> even k \<Longrightarrow>
   fl (of_int k / 10 ^ nd) = Fin r \<Longrightarrow> round_exact s nd = Fin r"
  using rhe_nearestI[of "s * 10 ^ nd" k] by (simp add: round_exact_def)

lemma round_exact_tie:
  "round_exact (weighted_sum_exact 0 (3 / 2) 0 0 1 0 0) 3 = Fin (361273132608127 / 70368744177664)"
  unfolding weighted_sum_exact_def
  by (rule round_exactI[where k = "5134", OF _ fl_eqI[where e = "2" and q = "- 50" and n = "5780370121730032"]]) simp_all

lemma round_exact_above_tie:
  "round_exact (weighted_sum_exact 0 (6755399441055745 / 4503599627370496) 0 0 1 0 0) 3 = Fin (361273132608127 / 70368744177664)"
  unfolding weighted_sum_exact_def
  by (rule round_exactI[where k = "5134", OF _ fl_eqI[where e = "2" and q = "- 50" and n = "5780370121730032"]]) simp_all

lemma round_stored_above_tie:
  "round_exact (weighted_sum_stored 0 (6755399441055745 / 4503599627370496) 0 0 1 0 0) 3 = Fin (361273132608127 / 70368744177664)"
  unfolding weighted_sum_stored_def Let_def factor_transport_km_car factor_transport_km_bus factor_transport_km_bike_walk factor_electricity_kwh_factor factor_meat_meal factor_veg_meal factor_plastic_item fin_val.simps
  by (rule round_exactI[where k = "5134", OF _ fl_eqI[where e = "2" and q = "- 50" and n = "5780370121730032"]]) simp_all

lemma round_exact_sample:
  "round_exact (weighted_sum_exact (5404319552844595 / 18014398509481984) 7 0 (5 / 2) 1 2 3) 3 = Fin (6435080917559017 / 562949953421312)"
  unfolding weighted_sum_exact_def
  by (rule round_exactI[where k = "11431", OF _ fl_eqI[where e = "3" and q = "- 49" and n = "6435080917559017"]]) simp_all

text \<open>
  Claim C1, amended. On seven zeros \<open>calculate_co2\<close> returns \<open>0.0\<close>, and on
  \<open>(10, 0, 0, 4, 1, 0, 2)\<close> it returns \<open>10.0\<close>. For all seven inputs that are ints or
  finite floats, not negative and at most \<open>2 ^ 1000\<close>, with the exact values
  \<open>c'\<close>, ..., \<open>p'\<close>: \<open>calculate_co2\<close> returns a float \<open>r\<close>, which is the float nearest to
  a whole number \<open>n\<close> of thousandths; \<open>r\<close> differs from the exact weighted sum
  \<open>c'*0.192 + b'*0.089 + w'*0.0 + k'*0.82 + m'*5.0 + v'*2.0 - p'*0.1\<close> by at most
  \<open>1/2000\<close> plus the slack \<open>(M + 1) / 2 ^ 48\<close> of the float operations, where \<open>M\<close> is the
  sum of the seven products; and \<open>r\<close> is the exact weighted sum rounded to 3 decimal
  places whenever that sum, in thousandths, is farther than 1000 times the slack from
  every midpoint between two whole numbers. Nearer to a midpoint the float operations
  can carry the sum across it, and the result is then the neighbouring thousandth.
\<close>

theorem calculate_co2_rounded_sum:
  "calculate_co2 (PyInt 0) (PyInt 0) (PyInt 0) (PyInt 0) (PyInt 0) (PyInt 0) (PyInt 0)
       = Inr (Fin 0)
   \<and> calculate_co2 (PyInt 10) (PyInt 0) (PyInt 0) (PyInt 4) (PyInt 1) (PyInt 0) (PyInt 2)
       = Inr (Fin 10)
   \<and> (input_ok c c' \<and> input_ok b b' \<and> input_ok w w' \<and> input_ok k k' \<and> input_ok m m'
        \<and> input_ok v v' \<and> input_ok p p' \<longrightarrow>
       (\<exists>r n. calculate_co2 c b w k m v p = Inr (Fin r)
          \<and> Fin r = fl (of_int n / 1000)
          \<and> \<bar>r - weighted_sum_exact c' b' w' k' m' v' p'\<bar>
               \<le> 1 / 2000 + float_slack (weighted_magnitude c' b' w' k' m' v' p')
          \<and> (1000 * float_slack (weighted_magnitude c' b' w' k' m' v' p')
                 < tie_gap (weighted_sum_exact c' b' w' k' m' v' p' * 1000)
               \<longrightarrow> Fin r = round_exact (weighted_sum_exact c' b' w' k' m' v' p') 3)))"
  using calculate_co2_zero calculate_co2_example rounded_sum_general[of c c' b b' w w' k k' m m' v v' p p']
  by blast

theorem calculate_co2_rounded_sum_witness:
  "input_ok (PyFloat (Fin (5404319552844595 / 18014398509481984))) (5404319552844595 / 18014398509481984)
   \<and> input_ok (PyInt 7) 7 \<and> input_ok (PyInt 0) 0 \<and> input_ok (PyFloat (Fin (5 / 2))) (5 / 2)
   \<and> input_ok (PyInt 1) 1 \<and> input_ok (PyInt 2) 2 \<and> input_ok (PyInt 3) 3
   \<and> 1000 * float_slack (weighted_magnitude (5404319552844595 / 18014398509481984) 7 0 (5 / 2) 1 2 3)
       < tie_gap (weighted_sum_exact (5404319552844595 / 18014398509481984) 7 0 (5 / 2) 1 2 3 * 1000)
   \<and> calculate_co2 (PyFloat (Fin (5404319552844595 / 18014398509481984))) (PyInt 7) (PyInt 0)
         (PyFloat (Fin (5 / 2))) (PyInt 1) (PyInt 2) (PyInt 3)
       = Inr (Fin (6435080917559017 / 562949953421312))"
proof -
  have i: "input_ok (PyFloat (Fin (5404319552844595 / 18014398509481984))) (5404319552844595 / 18014398509481984)"
    "input_ok (PyInt 7) 7" "input_ok (PyInt 0) 0" "input_ok (PyFloat (Fin (5 / 2))) (5 / 2)"
    "input_ok (PyInt 1) 1" "input_ok (PyInt 2) 2" "input_ok (PyInt 3) 3"
    by (simp_all add: input_ok_def)
  have g: "1000 * float_slack (weighted_magnitude (5404319552844595 / 18014398509481984) 7 0 (5 / 2) 1 2 3)
       < tie_gap (weighted_sum_exact (5404319552844595 / 18014398509481984) 7 0 (5 / 2) 1 2 3 * 1000)"
  proof -
    have "tie_gap (weighted_sum_exact (5404319552844595 / 18014398509481984) 7 0 (5 / 2) 1 2 3 * 1000)
        = \<bar>weighted_sum_exact (5404319552844595 / 18014398509481984) 7 0 (5 / 2) 1 2 3 * 1000
             - of_int 11430 - 1 / 2\<bar>"
      by (rule tie_gap_eqI) (simp_all add: weighted_sum_exact_def)
    then show ?thesis
      by (simp add: float_slack_def weighted_magnitude_def weighted_sum_exact_def)
  qed
  from calculate_co2_rounded_sum[of "PyFloat (Fin (5404319552844595 / 18014398509481984))"
      "5404319552844595 / 18014398509481984" "PyInt 7" 7 "PyInt 0" 0 "PyFloat (Fin (5 / 2))" "5 / 2"
      "PyInt 1" 1 "PyInt 2" 2 "PyInt 3" 3] i g
  have "calculate_co2 (PyFloat (Fin (5404319552844595 / 18014398509481984))) (PyInt 7) (PyInt 0)
         (PyFloat (Fin (5 / 2))) (PyInt 1) (PyInt 2) (PyInt 3)
       = Inr (round_exact (weighted_sum_exact (5404319552844595 / 18014398509481984) 7 0 (5 / 2) 1 2 3) 3)"
    by metis
  then show ?thesis using i g by (simp only: round_exact_sample simp_thms)
qed

text \<open>
  Claim C1 as stated fails. On \<open>(0, 1.5, 0, 0, 1, 0, 0)\<close> the exact weighted sum is
  \<open>5.1335\<close>, which rounds to \<open>5.134\<close>, while \<open>calculate_co2\<close> returns \<open>5.133\<close>: the float
  sum \<open>1.5*0.089 + 5.0\<close> lies below \<open>5.1335\<close>. The same happens when \<open>bus_km\<close> is the next
  float above \<open>1.5\<close>: the exact weighted sum then lies strictly above \<open>5.1335\<close>, with the
  decimal coefficients and also with the coefficients as stored floats, so that it rounds
  to \<open>5.134\<close> under every rule for ties, and \<open>calculate_co2\<close> still returns \<open>5.133\<close>.
\<close>

theorem calculate_co2_rounded_sum_counterexample:
  "input_ok (PyInt 0) 0 \<and> input_ok (PyInt 1) 1 \<and> input_ok (PyFloat (Fin (3 / 2))) (3 / 2)
   \<and> input_ok (PyFloat (Fin (6755399441055745 / 4503599627370496))) (6755399441055745 / 4503599627370496)
   \<and> calculate_co2 (PyInt 0) (PyFloat (Fin (3 / 2))) (PyInt 0) (PyInt 0) (PyInt 1) (PyInt 0) (PyInt 0)
       = Inr (Fin (5779244221823189 / 1125899906842624))
   \<and> round_exact (weighted_sum_exact 0 (3 / 2) 0 0 1 0 0) 3 = Fin (361273132608127 / 70368744177664)
   \<and> calculate_co2 (PyInt 0) (PyFloat (Fin (6755399441055745 / 4503599627370496))) (PyInt 0) (PyInt 0)
         (PyInt 1) (PyInt 0) (PyInt 0)
       = Inr (Fin (5779244221823189 / 1125899906842624))
   \<and> 5133 + 1 / 2 < weighted_sum_exact 0 (6755399441055745 / 4503599627370496) 0 0 1 0 0 * 1000
   \<and> round_exact (weighted_sum_exact 0 (6755399441055745 / 4503599627370496) 0 0 1 0 0) 3
       = Fin (361273132608127 / 70368744177664)
   \<and> 5133 + 1 / 2 < weighted_sum_stored 0 (6755399441055745 / 4503599627370496) 0 0 1 0 0 * 1000
   \<and> round_exact (weighted_sum_stored 0 (6755399441055745 / 4503599627370496) 0 0 1 0 0) 3
       = Fin (361273132608127 / 70368744177664)
   \<and> Fin (5779244221823189 / 1125899906842624) = fl (5133 / 1000)
   \<and> Fin (361273132608127 / 70368744177664) = fl (5134 / 1000)
   \<and> (5779244221823189 / 1125899906842624 :: rat) < 361273132608127 / 70368744177664"
proof -
  have i: "input_ok (PyInt 0) 0" "input_ok (PyInt 1) 1" "input_ok (PyFloat (Fin (3 / 2))) (3 / 2)"
    "input_ok (PyFloat (Fin (6755399441055745 / 4503599627370496))) (6755399441055745 / 4503599627370496)"
    by (simp_all add: input_ok_def)
  have a: "5133 + 1 / 2 < weighted_sum_exact 0 (6755399441055745 / 4503599627370496) 0 0 1 0 0 * 1000"
    by (simp add: weighted_sum_exact_def)
  have b: "5133 + 1 / 2 < weighted_sum_stored 0 (6755399441055745 / 4503599627370496) 0 0 1 0 0 * 1000"
    by (simp add: weighted_sum_stored_def Let_def factor_transport_km_car factor_transport_km_bus
        factor_transport_km_bike_walk factor_electricity_kwh_factor factor_meat_meal
        factor_veg_meal factor_plastic_item)
  have f1: "fl (5133 / 1000) = Fin (5779244221823189 / 1125899906842624)"
    by (rule fl_eqI[where e = "2" and q = "- 50" and n = "5779244221823189"]) simp_all
  have f2: "fl (5134 / 1000) = Fin (361273132608127 / 70368744177664)"
    by (rule fl_eqI[where e = "2" and q = "- 50" and n = "5780370121730032"]) simp_all
  have lt: "(5779244221823189 / 1125899906842624 :: rat) < 361273132608127 / 70368744177664" by simp
  show ?thesis
    using i a b lt calculate_co2_tie calculate_co2_above_tie round_exact_tie round_exact_above_tie
      round_stored_above_tie
    by (simp only: f1 f2 simp_thms)
qed

text \<open>
  Claim C7. There are non-negative inputs on which \<open>calculate_co2\<close> returns a strictly
  negative number: six zeros and one plastic item avoided give \<open>-0.1\<close>.
\<close>

theorem calculate_co2_negative:
  "\<exists>c b w k m v p r.
     num_le (PyInt 0) c \<and> num_le (PyInt 0) b \<and> num_le (PyInt 0) w \<and> num_le (PyInt 0) k
     \<and> num_le (PyInt 0) m \<and> num_le (PyInt 0) v \<and> num_le (PyInt 0) p
     \<and> calculate_co2 c b w k m v p = Inr r \<and> flt r (Fin 0)"
proof -
  have "num_le (PyInt 0) (PyInt 0)" "num_le (PyInt 0) (PyInt 1)" by (simp_all add: num_le_def)
  moreover have "flt (Fin (- (3602879701896397 / 36028797018963968))) (Fin 0)" by simp
  ultimately show ?thesis using calculate_co2_plastic by blast
qed

text \<open>
  Claim C8. With a baseline of zero the savings computation does not divide: for every
  value of \<open>co2\<close> it returns, and the percentage is the int 0.
\<close>

theorem savings_zero_baseline:
  "savings (Fin 0) co2 = Inr (round_py (max_py (Fin 0) (fsub (Fin 0) co2)) 3, PyInt 0)"
  by (simp add: savings_def Let_def fgt_def)

text \<open>
  Claim C2, amended. Whenever \<open>calculate_co2\<close> returns a value \<open>co2\<close> for the inputs,
  the submission computes a percentage \<open>pct\<close>; it is never negative, and it is at most
  100 whenever \<open>co2\<close> is not negative.
\<close>

theorem savings_pct_bounds:
  assumes "calculate_co2 c b w k m v p = Inr co2"
  shows "\<exists>saved pct. submit_report c b w k m v p = Inr (co2, saved, pct)
           \<and> num_le (PyInt 0) pct \<and> (fle (Fin 0) co2 \<longrightarrow> num_le pct (PyInt 100))"
proof -
  from savings_bounds[OF baseline_representable _ round_baseline, of co2]
  obtain saved pct where
    s: "savings (Fin (5854679515581645 / 562949953421312)) co2 = Inr (saved, PyFloat pct)"
    and n: "nonneg_ext pct" and u: "fle (Fin 0) co2 \<longrightarrow> bounded_by 100 pct" by auto
  have "submit_report c b w k m v p = Inr (co2, saved, PyFloat pct)"
    by (simp add: submit_report_def assms baseline_value s)
  moreover have "num_le (PyInt 0) (PyFloat pct)" using n by (rule nonneg_ext_num_le)
  moreover have "fle (Fin 0) co2 \<longrightarrow> num_le (PyFloat pct) (PyInt 100)"
    using u bounded_by_num_le[of 100 pct] by simp
  ultimately show ?thesis by blast
qed

theorem savings_pct_bounds_witness:
  "calculate_co2 (PyInt 10) (PyInt 0) (PyInt 0) (PyInt 4) (PyInt 1) (PyInt 0) (PyInt 2)
     = Inr (Fin 10)
   \<and> submit_report (PyInt 10) (PyInt 0) (PyInt 0) (PyInt 4) (PyInt 1) (PyInt 0) (PyInt 2)
     = Inr (Fin 10, Fin (3602879701896397 / 9007199254740992),
            PyFloat (Fin (8669429282688205 / 2251799813685248)))
   \<and> num_le (PyInt 0) (PyFloat (Fin (8669429282688205 / 2251799813685248)))
   \<and> fle (Fin 0) (Fin 10)
   \<and> num_le (PyFloat (Fin (8669429282688205 / 2251799813685248))) (PyInt 100)"
proof -
  have ev: "submit_report (PyInt 10) (PyInt 0) (PyInt 0) (PyInt 4) (PyInt 1) (PyInt 0) (PyInt 2)
     = Inr (Fin 10, Fin (3602879701896397 / 9007199254740992),
            PyFloat (Fin (8669429282688205 / 2251799813685248)))"
    by (simp add: submit_report_def calculate_co2_example baseline_value savings_example)
  from savings_pct_bounds[OF calculate_co2_example] obtain saved pct where
    sr: "submit_report (PyInt 10) (PyInt 0) (PyInt 0) (PyInt 4) (PyInt 1) (PyInt 0) (PyInt 2)
           = Inr (Fin 10, saved, pct)"
    and lo: "num_le (PyInt 0) pct" and hi: "fle (Fin 0) (Fin 10) \<longrightarrow> num_le pct (PyInt 100)"
    by blast
  from sr ev have pct: "pct = PyFloat (Fin (8669429282688205 / 2251799813685248))" by simp
  have f: "fle (Fin 0) (Fin 10)" by simp
  from lo hi f show ?thesis unfolding pct using calculate_co2_example ev by blast
qed

text \<open>
  Claim C2 as stated fails: on six zeros and one plastic item avoided, \<open>co2\<close> is
  \<open>-0.1\<close>, \<open>saved\<close> is \<open>10.5\<close>, above the baseline \<open>10.4\<close>, and the percentage is
  \<open>100.96\<close>.
\<close>

theorem savings_pct_bounds_counterexample:
  "submit_report (PyInt 0) (PyInt 0) (PyInt 0) (PyInt 0) (PyInt 0) (PyInt 0) (PyInt 1)
     = Inr (Fin (- (3602879701896397 / 36028797018963968)), Fin (21 / 2),
            PyFloat (Fin (7104428412176957 / 70368744177664)))
   \<and> \<not> num_le (PyFloat (Fin (7104428412176957 / 70368744177664))) (PyInt 100)"
  by (simp add: submit_report_def calculate_co2_plastic baseline_value savings_plastic num_le_def)

section \<open>What the page stores\<close>

lemma factors_nonneg:
  "nonneg_float (transport_km_car EMISSION_FACTORS)"
  "nonneg_float (transport_km_bus EMISSION_FACTORS)"
  "nonneg_float (transport_km_bike_walk EMISSION_FACTORS)"
  "nonneg_float (electricity_kwh_factor EMISSION_FACTORS)"
  "nonneg_float (meat_meal EMISSION_FACTORS)"
  "nonneg_float (veg_meal EMISSION_FACTORS)"
  "bounded_by 1 (plastic_item EMISSION_FACTORS)"
  by (simp_all add: factor_transport_km_car factor_transport_km_bus
      factor_transport_km_bike_walk factor_electricity_kwh_factor factor_meat_meal
      factor_veg_meal factor_plastic_item)

lemma mul_float_float_nonneg:
  assumes "nonneg_float a" "nonneg_float f" "mul_float (PyFloat a) f = Inr t"
  shows "nonneg_ext t"
proof -
  from assms(1,2) obtain x c where "a = Fin x" "0 \<le> x" "f = Fin c" "0 \<le> c"
    by (cases a; cases f) simp_all
  then show ?thesis using assms(3) fl_nonneg_ext[of "x * c"] by (auto simp: mul_float_def)
qed

lemma as_float_int:
  assumes "0 \<le> n" "as_float (PyInt n) = Inr a"
  shows "\<exists>x. a = Fin x \<and> 0 \<le> x \<and> fl x = Fin x"
proof -
  from assms(2) obtain x where a: "a = Fin x" and f: "fl (of_int n) = Fin x"
    by (cases "fl (of_int n)") auto
  from f have x: "x = fl_val (of_int n)" by (simp add: fl_Fin_iff)
  have "0 \<le> x" unfolding x using assms(1) by (intro fl_val_nonneg) simp
  moreover have "fl x = Fin x" using fl_fl_val[of "of_int n"] f x by simp
  ultimately show ?thesis using a by blast
qed

lemma mul_float_int_nonneg:
  assumes "0 \<le> n" "nonneg_float f" "mul_float (PyInt n) f = Inr t"
  shows "nonneg_ext t"
proof -
  from assms(3) obtain a where a: "as_float (PyInt n) = Inr a" and t: "t = fmul a f"
    by (auto simp: mul_float_def ebind_Inr_iff)
  from as_float_int[OF assms(1) a] obtain x where x: "a = Fin x" "0 \<le> x" by blast
  from assms(2) obtain c where c: "f = Fin c" "0 \<le> c" by (cases f) simp_all
  show ?thesis using fl_nonneg_ext[of "x * c"] x c t by simp
qed

lemma mul_float_int_finite:
  assumes "0 \<le> n" "bounded_by 1 f" "mul_float (PyInt n) f = Inr t"
  shows "nonneg_float t"
proof -
  from assms(3) obtain a where a: "as_float (PyInt n) = Inr a" and t: "t = fmul a f"
    by (auto simp: mul_float_def ebind_Inr_iff)
  from as_float_int[OF assms(1) a] obtain x where x: "a = Fin x" "0 \<le> x" "fl x = Fin x" by blast
  from assms(2) obtain c where c: "f = Fin c" "0 \<le> c" "c \<le> 1" by (cases f) simp_all
  have "0 \<le> x * c" using x(2) c(2) by simp
  moreover have "x * c \<le> x * 1" using c(3) x(2) by (rule mult_left_mono)
  then have "x * c \<le> x" by simp
  moreover note x(3)
  ultimately have "bounded_by x (fl (x * c))" by (rule fl_bounded)
  then show ?thesis unfolding t x c by (cases "fl (x * c)") simp_all
qed

lemma fadd_nonneg_ext: "nonneg_ext x \<Longrightarrow> nonneg_ext y \<Longrightarrow> nonneg_ext (fadd x y)"
  by (cases x; cases y) (simp_all add: fl_nonneg_ext)

lemma fsub_finite_not_NaN: "nonneg_ext x \<Longrightarrow> nonneg_float t \<Longrightarrow> fsub x t \<noteq> NaN"
  by (cases x; cases t) (simp_all add: fsub_def)

lemma round_py_not_NaN: "x \<noteq> NaN \<Longrightarrow> round_py x nd \<noteq> NaN"
  by (cases x) simp_all

text \<open>On the values the widgets deliver, the calculator never returns NaN.\<close>

lemma calculate_co2_not_NaN:
  assumes "nonneg_float a1" "nonneg_float a2" "nonneg_float a3" "nonneg_float a4"
    and "0 \<le> m" "0 \<le> v" "0 \<le> p"
    and "calculate_co2 (PyFloat a1) (PyFloat a2) (PyFloat a3) (PyFloat a4)
           (PyInt m) (PyInt v) (PyInt p) = Inr co2"
  shows "co2 \<noteq> NaN"
proof -
  from assms(8) obtain t1 t2 t3 t4 t5 t6 t7 where
    t: "mul_float (PyFloat a1) (transport_km_car EMISSION_FACTORS) = Inr t1"
       "mul_float (PyFloat a2) (transport_km_bus EMISSION_FACTORS) = Inr t2"
       "mul_float (PyFloat a3) (transport_km_bike_walk EMISSION_FACTORS) = Inr t3"
       "mul_float (PyFloat a4) (electricity_kwh_factor EMISSION_FACTORS) = Inr t4"
       "mul_float (PyInt m) (meat_meal EMISSION_FACTORS) = Inr t5"
       "mul_float (PyInt v) (veg_meal EMISSION_FACTORS) = Inr t6"
       "mul_float (PyInt p) (plastic_item EMISSION_FACTORS) = Inr t7"
    and co2: "co2 = round_py
        (fsub (fadd (fadd (fadd (fadd (fadd (fadd (Fin 0) t1) t2) t3) t4) t5) t6) t7) 3"
    unfolding calculate_co2_def Let_def ebind_Inr_iff by auto
  have n: "nonneg_ext t1" "nonneg_ext t2" "nonneg_ext t3" "nonneg_ext t4" "nonneg_ext t5"
    "nonneg_ext t6"
    using t assms(1-7) factors_nonneg
    by (blast intro: mul_float_float_nonneg mul_float_int_nonneg)+
  have f7: "nonneg_float t7"
    using assms(7) factors_nonneg(7) t(7) by (rule mul_float_int_finite)
  have "nonneg_ext (fadd (fadd (fadd (fadd (fadd (fadd (Fin 0) t1) t2) t3) t4) t5) t6)"
    using n by (intro fadd_nonneg_ext) simp_all
  then show ?thesis unfolding co2 using f7 by (intro round_py_not_NaN fsub_finite_not_NaN)
qed

lemma main_init_db: "main db w = main (Some (init_db db)) w"
  by (simp add: main_def init_db_def)

lemma main_prefix: "main (Some t) w = Inr (t', df) \<Longrightarrow> prefix t t'"
  by (auto simp: main_def Let_def init_db_def ebind_Inr_iff insert_log_Inr_iff split: if_splits)

lemma main_step:
  assumes ok: "widgets_ok w" and m: "main (Some t) w = Inr (t', df)"
  shows "t' = t \<or> (\<exists>r. t' = t @ [r] \<and> row_co2_ok r)"
proof (cases "w_submitted w")
  case False
  with m show ?thesis by (simp add: main_def Let_def init_db_def)
next
  case True
  with m obtain rep i where
    rep: "submit_report (PyFloat (w_car_km w)) (PyFloat (w_bus_km w))
            (PyFloat (w_bike_walk_km w)) (PyFloat (w_electricity_kwh w))
            (PyInt (w_meat_meals w)) (PyInt (w_veg_meals w))
            (PyInt (w_plastic_items_avoided w)) = Inr rep"
    and t': "t' = t @ [stored i
              \<lparr> user = w_user w, date = w_date_input w, car_km = w_car_km w,
                bus_km = w_bus_km w, bike_walk_km = w_bike_walk_km w,
                electricity_kwh = w_electricity_kwh w, meat_meals = w_meat_meals w,
                veg_meals = w_veg_meals w,
                plastic_items_avoided = w_plastic_items_avoided w,
                co2_kg = fst rep, created_at = w_now w \<rparr>]"
    by (auto simp: main_def Let_def init_db_def ebind_Inr_iff insert_log_Inr_iff)
  from rep have c: "calculate_co2 (PyFloat (w_car_km w)) (PyFloat (w_bus_km w))
            (PyFloat (w_bike_walk_km w)) (PyFloat (w_electricity_kwh w))
            (PyInt (w_meat_meals w)) (PyInt (w_veg_meals w))
            (PyInt (w_plastic_items_avoided w)) = Inr (fst rep)"
    by (auto simp: submit_report_def ebind_Inr_iff)
  from ok have w: "nonneg_float (w_car_km w)" "nonneg_float (w_bus_km w)"
    "nonneg_float (w_bike_walk_km w)" "nonneg_float (w_electricity_kwh w)"
    "0 \<le> w_meat_meals w" "0 \<le> w_veg_meals w" "0 \<le> w_plastic_items_avoided w"
    by (simp_all add: widgets_ok_def)
  have nan: "fst rep \<noteq> NaN" using w c by (rule calculate_co2_not_NaN)
  have nn: "w_car_km w \<noteq> NaN" "w_bus_km w \<noteq> NaN" "w_bike_walk_km w \<noteq> NaN"
    "w_electricity_kwh w \<noteq> NaN"
    using w(1-4) by auto
  have "row_co2_ok (stored i
              \<lparr> user = w_user w, date = w_date_input w, car_km = w_car_km w,
                bus_km = w_bus_km w, bike_walk_km = w_bike_walk_km w,
                electricity_kwh = w_electricity_kwh w, meat_meals = w_meat_meals w,
                veg_meals = w_veg_meals w,
                plastic_items_avoided = w_plastic_items_avoided w,
                co2_kg = fst rep, created_at = w_now w \<rparr>)"
    using nan nn c by (simp add: row_co2_ok_def stored_def sql_real_def)
  with t' show ?thesis by blast
qed

lemma after_run_cases:
  "init_db (after_run db w) = init_db db
   \<or> (\<exists>t' df. main (Some (init_db db)) w = Inr (t', df) \<and> init_db (after_run db w) = t')"
proof (cases "main db w")
  case (Inl err)
  then show ?thesis by (simp add: after_run_def init_db_def)
next
  case (Inr res)
  then have "main (Some (init_db db)) w = Inr (fst res, snd res)"
    using main_init_db[of db w] by simp
  moreover have "init_db (after_run db w) = fst res" using Inr by (simp add: after_run_def init_db_def)
  ultimately show ?thesis by blast
qed

lemma after_run_co2:
  assumes "widgets_ok w" "list_all row_co2_ok (init_db db)"
  shows "list_all row_co2_ok (init_db (after_run db w))"
  using after_run_cases[of db w] assms main_step[OF assms(1)] by (elim disjE exE conjE) fastforce+

lemma after_run_prefix: "prefix (init_db db) (init_db (after_run db w))"
  using after_run_cases[of db w] by (auto dest: main_prefix)

lemma session_co2:
  "list_all widgets_ok ws \<Longrightarrow> list_all row_co2_ok (init_db db) \<Longrightarrow>
   list_all row_co2_ok (init_db (foldl after_run db ws))"
  by (induction ws arbitrary: db) (simp_all add: after_run_co2)

lemma session_prefix: "prefix (init_db db) (init_db (foldl after_run db ws))"
proof (induction ws arbitrary: db)
  case Nil
  show ?case by simp
next
  case (Cons w ws)
  have "prefix (init_db db) (init_db (after_run db w))" by (rule after_run_prefix)
  also have "prefix (init_db (after_run db w)) (init_db (foldl after_run (after_run db w) ws))"
    by (rule Cons.IH)
  finally show ?case by simp
qed

text \<open>
  Claim C4. In every table that a session of the page produces from an empty store,
  with the values the input widgets can deliver (finite non-negative floats,
  non-negative ints), every row's \<open>co2_kg\<close> is what \<open>calculate_co2\<close> returns on the row's
  seven quantities. Runs never change a stored row: the table after more runs begins
  with the rows it had, so no stored \<open>co2_kg\<close> is recomputed or overwritten.
\<close>

theorem stored_co2_is_calculated:
  assumes "list_all widgets_ok ws"
  shows "list_all row_co2_ok (init_db (foldl after_run None ws))
         \<and> prefix (init_db (foldl after_run None ws))
             (init_db (foldl after_run (foldl after_run None ws) ws'))"
  using session_co2[OF assms, of None] session_prefix[of "foldl after_run None ws" ws']
  by (simp add: init_db_def)

lemma submit_report_run:
  "submit_report (PyFloat (Fin 10)) (PyFloat (Fin 0)) (PyFloat (Fin 0)) (PyFloat (Fin 4))
     (PyInt 1) (PyInt 0) (PyInt 2)
   = Inr (Fin 10, Fin (3602879701896397 / 9007199254740992),
          PyFloat (Fin (8669429282688205 / 2251799813685248)))"
  by (simp add: submit_report_def calculate_co2_widgets baseline_value savings_example)

lemma after_run1: "after_run None run_widgets = Some run_table"
  by (simp add: after_run_def main_def Let_def init_db_def run_widgets_def submit_report_run
      insert_log_def fits_int64_def next_rowid_def run_table_def run_entry_def stored_def)

lemma after_run2: "after_run (Some run_table) run_widgets = Some run_table2"
  by (simp add: after_run_def main_def Let_def init_db_def run_widgets_def submit_report_run
      insert_log_def fits_int64_def next_rowid_def run_table_def run_table2_def run_entry_def
      stored_def)

theorem stored_co2_is_calculated_witness:
  "list_all widgets_ok [run_widgets]
   \<and> foldl after_run None [run_widgets] = Some run_table
   \<and> foldl after_run (Some run_table) [run_widgets] = Some run_table2
   \<and> list_all row_co2_ok run_table
   \<and> prefix run_table run_table2"
proof -
  have ok: "list_all widgets_ok [run_widgets]" by (simp add: widgets_ok_def run_widgets_def)
  have r1: "foldl after_run None [run_widgets] = Some run_table"
    by (simp add: after_run1)
  have r2: "foldl after_run (Some run_table) [run_widgets] = Some run_table2"
    by (simp add: after_run2)
  from stored_co2_is_calculated[OF ok, of "[run_widgets]"] ok r1 r2
  show ?thesis by (simp add: init_db_def)
qed

end
